theory Spec2Isabelle
  imports Complex_Main
begin

section \<open>MP-QMCMC for Bayesian linear regression: the sampler of BayesianLinReg.py\<close>

text \<open>
  The sampler works on numpy arrays of floats. Here floats are exact reals, a 1-D array is
  a list of reals and a 2-D array is the list of its rows. Where the float computation
  leaves the finite numbers (a mean over an empty slice, a division of an array by zero)
  the model stops with the outcome \<open>NotANumber\<close>; the Python exceptions are the other
  outcomes. The exponentials of the weight normalisation are the one place where the code
  exponentiates differences of log-weights of any size: there the overflow of \<^verbatim>\<open>np.exp\<close>
  to infinity is modelled, with the weights it leads to. Rounding is not modelled. The
  list operations agree with numpy on arrays of the documented shapes:
  \<open>x0\<close> and \<open>InitMean\<close> of length \<open>d\<close>, \<open>InitCov\<close> of \<open>d\<close> rows and columns, a design
  matrix of \<open>d\<close> columns with one observation per row, and stream rows of \<open>d+1\<close> entries.
\<close>

type_synonym vec = "real list"
type_synonym mat = "real list list"

datatype error = ZeroDivisionError | ValueError | IndexError | LinAlgError | NotANumber

subsection \<open>Python and numpy helpers\<close>

text \<open>\<^verbatim>\<open>int(x)\<close> of a float truncates towards zero.\<close>

definition py_int :: "real \<Rightarrow> int" where
  "py_int x = (if 0 \<le> x then \<lfloor>x\<rfloor> else \<lceil>x\<rceil>)"

text \<open>
  Where a slice bound \<open>i\<close> falls in a sequence of length \<open>len\<close>: a negative bound counts
  from the end, and bounds are clipped to the sequence.
\<close>

definition slice_bound :: "nat \<Rightarrow> int \<Rightarrow> nat" where
  "slice_bound len i = (if i < 0 then nat (int len + i) else min (nat i) len)"

text \<open>An index \<open>i\<close> into a sequence of length \<open>len\<close>: negative indices count from the end.\<close>

definition index :: "nat \<Rightarrow> int \<Rightarrow> error + nat" where
  "index len i =
     (if 0 \<le> i \<and> i < int len then Inr (nat i)
      else if - int len \<le> i \<and> i < 0 then Inr (nat (int len + i))
      else Inl IndexError)"

definition bind_err :: "error + 'a \<Rightarrow> ('a \<Rightarrow> error + 'b) \<Rightarrow> error + 'b" where
  "bind_err r f = (case r of Inl e \<Rightarrow> Inl e | Inr v \<Rightarrow> f v)"

text \<open>2-D arrays are lists of rows of one length, with at least one row where the number
  of columns matters.\<close>

definition ncols :: "mat \<Rightarrow> nat" where
  "ncols A = (case A of [] \<Rightarrow> 0 | r # _ \<Rightarrow> length r)"

definition col :: "mat \<Rightarrow> nat \<Rightarrow> vec" where
  "col A j = map (\<lambda>r. r ! j) A"

definition transpose_m :: "mat \<Rightarrow> mat" where
  "transpose_m A = map (col A) [0..<ncols A]"

definition dot :: "vec \<Rightarrow> vec \<Rightarrow> real" where
  "dot u v = sum_list (map2 (*) u v)"

definition mat_mul :: "mat \<Rightarrow> mat \<Rightarrow> mat" where
  "mat_mul A B = map (\<lambda>r. map (\<lambda>j. dot r (col B j)) [0..<ncols B]) A"

definition diagonal :: "mat \<Rightarrow> vec" where
  "diagonal A = map (\<lambda>i. A ! i ! i) [0..<min (length A) (ncols A)]"

definition scale :: "real \<Rightarrow> mat \<Rightarrow> mat" where
  "scale c A = map (map (\<lambda>x. c * x)) A"

definition identity :: "nat \<Rightarrow> mat" where
  "identity k = map (\<lambda>i. map (\<lambda>j. if i = j then 1 else 0) [0..<k]) [0..<k]"

definition outer :: "vec \<Rightarrow> vec \<Rightarrow> mat" where
  "outer u v = map (\<lambda>x. map (\<lambda>y. x * y) v) u"

text \<open>\<^verbatim>\<open>np.mean(A, axis=0)\<close> of a 2-D and of a 3-D array; over no rows the result is nan.\<close>

definition mean_rows :: "mat \<Rightarrow> error + vec" where
  "mean_rows A =
     (if A = [] then Inl NotANumber
      else Inr (map (\<lambda>c. sum_list c / real (length A)) (transpose_m A)))"

definition mean_mats :: "mat list \<Rightarrow> error + mat" where
  "mean_mats As =
     (case As of
        [] \<Rightarrow> Inl NotANumber
      | A # _ \<Rightarrow>
          Inr (map (\<lambda>i. map (\<lambda>j. sum_list (map (\<lambda>B. B ! i ! j) As) / real (length As))
                           [0..<ncols A]) [0..<length A]))"

text \<open>\<^verbatim>\<open>np.cumsum\<close>.\<close>

fun cumsum_from :: "real \<Rightarrow> vec \<Rightarrow> vec" where
  "cumsum_from acc [] = []"
| "cumsum_from acc (x # xs) = (acc + x) # cumsum_from (acc + x) xs"

definition cumsum :: "vec \<Rightarrow> vec" where
  "cumsum v = cumsum_from 0 v"

text \<open>
  \<^verbatim>\<open>np.searchsorted(a, v)\<close>, side left: the binary search for the first position whose
  entry is not below \<open>v\<close>.
\<close>

function bsearch_left :: "vec \<Rightarrow> real \<Rightarrow> nat \<Rightarrow> nat \<Rightarrow> nat" where
  "bsearch_left a v lo hi =
     (if lo < hi
      then (if a ! (lo + (hi - lo) div 2) < v
            then bsearch_left a v (lo + (hi - lo) div 2 + 1) hi
            else bsearch_left a v lo (lo + (hi - lo) div 2))
      else lo)"
  by pat_completeness auto
termination
  by (relation "measure (\<lambda>(a, v, lo, hi). hi - lo)") auto

declare bsearch_left.simps [simp del]

definition searchsorted :: "vec \<Rightarrow> real \<Rightarrow> nat" where
  "searchsorted a v = bsearch_left a v 0 (length a)"

subsection \<open>The libraries and the collaborators\<close>

text \<open>
  numpy's \<^verbatim>\<open>linalg.inv\<close> and \<^verbatim>\<open>linalg.cholesky\<close> (\<open>None\<close>: they raise LinAlgError) and
  scipy's \<^verbatim>\<open>norm.ppf(u, loc=0, scale=s)\<close>, given as \<open>norm_ppf s u\<close> (\<open>None\<close>: the result is
  infinite or nan), are parameters of the model.
\<close>

record numlib =
  linalg_inv :: "mat \<Rightarrow> mat option"
  linalg_cholesky :: "mat \<Rightarrow> mat option"
  norm_ppf :: "real \<Rightarrow> real \<Rightarrow> real option"

text \<open>
  What \<^verbatim>\<open>linalg.inv\<close> promises when it returns: the argument is square and the result is
  its two-sided inverse.
\<close>

definition wf_mat :: "nat \<Rightarrow> nat \<Rightarrow> mat \<Rightarrow> bool" where
  "wf_mat m n A \<longleftrightarrow> length A = m \<and> (\<forall>r \<in> set A. length r = n)"

definition inverse_of :: "mat \<Rightarrow> mat \<Rightarrow> bool" where
  "inverse_of A B \<longleftrightarrow>
     wf_mat (length A) (length A) A \<and> wf_mat (length A) (length A) B \<and>
     mat_mul A B = identity (length A) \<and> mat_mul B A = identity (length A)"

definition inv_sound :: "numlib \<Rightarrow> bool" where
  "inv_sound lib \<longleftrightarrow> (\<forall>A B. linalg_inv lib A = Some B \<longrightarrow> inverse_of A B)"

text \<open>
  The arguments of the constructor, with what it takes from its collaborators: the design
  matrix, the observations and their number from \<^verbatim>\<open>DataGen(alpha, d)\<close>, and the point
  stream \<^verbatim>\<open>SeedGen(d+1, PowerOfTwo, Stream)\<close>. The dimension, the number of proposals and
  the exponent are counts.
\<close>

record args =
  data_X :: mat
  data_Obs :: vec
  data_NumOfSamples :: nat
  seed_xs :: mat
  arg_d :: nat
  arg_alpha :: real
  arg_x0 :: vec
  arg_N :: nat
  arg_StepSize :: real
  arg_PowerOfTwo :: nat
  arg_InitMean :: vec
  arg_InitCov :: mat
  arg_WeightIn :: real

text \<open>
  The fields of \<^verbatim>\<open>self\<close>, and the local variables of the constructor that live across
  iterations. \<open>xVals\<close> starts with the block of the single row \<open>x0\<close>.
\<close>

record engine =
  xVals :: "mat list"
  AcceptVals :: "vec list"
  WeightedSum :: mat
  WeightedCov :: "mat list"
  WeightedFunSum :: mat
  ApprPostMean :: vec
  ApprPostCov :: mat
  InvG_prior :: mat
  CholApprPostCov :: mat
  InvApprPostCov :: mat
  xI :: vec
  I_sel :: nat

subsection \<open>Prior precision (lines 77-80)\<close>

definition g_prior_precision :: "numlib \<Rightarrow> real \<Rightarrow> mat \<Rightarrow> nat \<Rightarrow> error + mat" where
  "g_prior_precision lib alpha X NumOfSamples =
     (if NumOfSamples = 0 then Inl ZeroDivisionError
      else let g = 1 / real NumOfSamples in
        if alpha = 0 then Inl ZeroDivisionError
        else let sigmaSq = 1 / alpha in
          (case linalg_inv lib (mat_mul (transpose_m X) X) of
             None \<Rightarrow> Inl LinAlgError
           | Some XtX_inv \<Rightarrow>
               let G_prior = scale (sigmaSq / g) XtX_inv in
               (case linalg_inv lib G_prior of
                  None \<Rightarrow> Inl LinAlgError
                | Some P \<Rightarrow> Inr P)))"

subsection \<open>Iteration count and burn-in block (lines 92, 104)\<close>

definition NumOfIter :: "nat \<Rightarrow> nat \<Rightarrow> nat \<Rightarrow> error + int" where
  "NumOfIter d N PowerOfTwo =
     (if N = 0 then Inl ZeroDivisionError
      else Inr (py_int (of_int (py_int (of_int (2 ^ PowerOfTwo - 1) / real (d + 1)) * int (d + 1))
                        / real N)))"

definition burnin_M :: "real \<Rightarrow> nat \<Rightarrow> error + int" where
  "burnin_M WeightIn N =
     (if N = 0 then Inl ZeroDivisionError else Inr (py_int (WeightIn / real N) + 1))"

subsection \<open>One iteration (lines 136-210)\<close>

text \<open>\<^verbatim>\<open>U = xs[n*(N):(n+1)*(N),:]\<close>\<close>

definition stream_block :: "mat \<Rightarrow> nat \<Rightarrow> nat \<Rightarrow> mat" where
  "stream_block xs N n = take ((n + 1) * N - n * N) (drop (n * N) xs)"

text \<open>Lines 139-143: the proposals, the current state first.\<close>

definition proposals :: "numlib \<Rightarrow> args \<Rightarrow> engine \<Rightarrow> mat \<Rightarrow> error + mat" where
  "proposals lib a s U =
     (let Z = map (\<lambda>row. map (norm_ppf lib (arg_StepSize a)) (take (arg_d a) row)) U in
      if \<exists>row \<in> set Z. None \<in> set row then Inl NotANumber
      else let y = map (\<lambda>r. map2 (+) (ApprPostMean s) r)
                       (mat_mul (map (map the) Z) (CholApprPostCov s))
           in Inr (xI s # y))"

text \<open>Lines 151-154.\<close>

definition log_posteriors :: "args \<Rightarrow> engine \<Rightarrow> mat \<Rightarrow> vec" where
  "log_posteriors a s Proposals =
     (let LogPriors = map (\<lambda>q. - 0.5 * q)
            (diagonal (mat_mul (mat_mul Proposals (InvG_prior s)) (transpose_m Proposals)));
          fs = mat_mul (data_X a) (transpose_m Proposals);
          R = map (\<lambda>f. map2 (-) (data_Obs a) f) (transpose_m fs);
          LogLikelihoods = map (\<lambda>q. - 0.5 * arg_alpha a * q)
            (diagonal (mat_mul R (transpose_m R)))
      in map2 (+) LogPriors LogLikelihoods)"

text \<open>Lines 157-159. Dividing the array by \<^verbatim>\<open>StepSize**2 = 0\<close> gives infinities or nan.\<close>

definition log_K :: "args \<Rightarrow> engine \<Rightarrow> mat \<Rightarrow> error + vec" where
  "log_K a s Proposals =
     (if (arg_StepSize a)\<^sup>2 = 0 then Inl NotANumber
      else let D = map (\<lambda>p. map2 (-) p (ApprPostMean s)) Proposals;
               K = map (map (\<lambda>x. x / (arg_StepSize a)\<^sup>2)) (InvApprPostCov s)
           in Inr (map (\<lambda>q. - 0.5 * q) (diagonal (mat_mul (mat_mul D K) (transpose_m D)))))"

definition symmetrise :: "vec \<Rightarrow> vec" where
  "symmetrise LogK_ni = map (\<lambda>k. sum_list LogK_ni - k) LogK_ni"

subsection \<open>Weight normalisation (lines 164-167)\<close>

text \<open>
  \<^verbatim>\<open>Sorted_LogPstates = np.sort(LogPstates)\<close>
  \<^verbatim>\<open>LogPstates = LogPstates - (Sorted_LogPstates[0] + np.log(1 + np.sum(np.exp(Sorted_LogPstates[1:] - Sorted_LogPstates[0]))))\<close>
  \<^verbatim>\<open>Pstates = np.exp(LogPstates)\<close>
  Reading \<open>Sorted_LogPstates[0]\<close> of an empty array raises IndexError.

  The sum is anchored at the smallest log-weight, so the exponents are the distances of
  the other log-weights above it. A double holds nothing above \<open>float_max\<close>; where an
  exponential, and so the sum, passes it, \<^verbatim>\<open>np.exp\<close> and \<^verbatim>\<open>np.sum\<close> give \<^verbatim>\<open>inf\<close>,
  \<^verbatim>\<open>np.log(1 + inf)\<close> is \<^verbatim>\<open>inf\<close>, every log-weight minus \<^verbatim>\<open>inf\<close> is \<^verbatim>\<open>-inf\<close>, and
  \<^verbatim>\<open>np.exp(-inf)\<close> is \<open>0\<close>: all weights are zero. \<open>None\<close> is the infinite normaliser.
\<close>

definition float_max :: real where
  "float_max = (2 ^ 53 - 1) * 2 ^ 971"

definition log_normaliser :: "vec \<Rightarrow> error + real option" where
  "log_normaliser LogPstates =
     (case sort LogPstates of
        [] \<Rightarrow> Inl IndexError
      | s0 # rest \<Rightarrow>
          let t = 1 + sum_list (map (\<lambda>r. exp (r - s0)) rest)
          in if float_max < t then Inr None else Inr (Some (s0 + ln t)))"

definition normalise :: "vec \<Rightarrow> error + vec" where
  "normalise LogPstates =
     (case log_normaliser LogPstates of
        Inl e \<Rightarrow> Inl e
      | Inr None \<Rightarrow> Inr (map (\<lambda>l. 0) LogPstates)
      | Inr (Some c) \<Rightarrow> Inr (map exp (map (\<lambda>l. l - c) LogPstates)))"

text \<open>Whether the normaliser of a vector of log-weights overflows.\<close>

definition overflows :: "vec \<Rightarrow> bool" where
  "overflows LogPstates \<longleftrightarrow> log_normaliser LogPstates = Inr None"

text \<open>The reference scheme of the differential test: exponentiate, divide by the total.\<close>

definition naive_normalise :: "vec \<Rightarrow> vec" where
  "naive_normalise LogPstates =
     map (\<lambda>l. exp l / sum_list (map exp LogPstates)) LogPstates"

subsection \<open>Moment update (lines 175-185)\<close>

text \<open>
  The weighted sum goes to slot \<open>n+M\<close>, the running mean is the mean of the slots up to
  and including that one, and the weighted covariance around the new mean goes to slot
  \<open>n+M\<close> of the covariance accumulator. The reshape to \<^verbatim>\<open>(N+1,d,1)\<close> raises ValueError
  unless the proposals hold \<open>(N+1)*d\<close> numbers.
\<close>

definition moment_update :: "args \<Rightarrow> int \<Rightarrow> nat \<Rightarrow> vec \<Rightarrow> mat \<Rightarrow> engine \<Rightarrow> error + engine" where
  "moment_update a M n Pstates Proposals s =
     (let WeightedStates = map2 (map2 (*)) (replicate (arg_d a) Pstates) (transpose_m Proposals) in
      bind_err (index (length (WeightedSum s)) (int n + M)) (\<lambda>i.
      let s1 = s\<lparr>WeightedSum := (WeightedSum s)[i := map sum_list WeightedStates]\<rparr> in
      bind_err (mean_rows (take (slice_bound (length (WeightedSum s1)) (int n + M + 1))
                                (WeightedSum s1))) (\<lambda>m.
      let s2 = s1\<lparr>ApprPostMean := m\<rparr>;
          B1 = map (\<lambda>p. map2 (-) p (ApprPostMean s2)) Proposals in
      if length (concat B1) \<noteq> (arg_N a + 1) * arg_d a then Inl ValueError
      else let A = map (\<lambda>b. outer b b) B1;
               slot = map (\<lambda>i. map (\<lambda>j. sum_list (map2 (\<lambda>w Ai. w * Ai ! i ! j) Pstates A))
                                     [0..<arg_d a]) [0..<arg_d a] in
      bind_err (index (length (WeightedCov s2)) (int n + M)) (\<lambda>k.
        Inr (s2\<lparr>WeightedCov := (WeightedCov s2)[k := slot]\<rparr>)))))"

subsection \<open>Covariance refresh (lines 187-192)\<close>

definition cov_update :: "numlib \<Rightarrow> args \<Rightarrow> int \<Rightarrow> nat \<Rightarrow> engine \<Rightarrow> error + engine" where
  "cov_update lib a M n s =
     (case linalg_inv lib (ApprPostCov s) of
        None \<Rightarrow> Inl LinAlgError
      | Some Inv0 \<Rightarrow>
          let s1 = s\<lparr>InvApprPostCov := Inv0\<rparr> in
          if arg_N a = 0 then Inl ZeroDivisionError
          else if real n > real (2 * arg_d a) / real (arg_N a)
          then bind_err (mean_mats (take (slice_bound (length (WeightedCov s1)) (int n + M + 1))
                                         (WeightedCov s1))) (\<lambda>C.
                 case linalg_cholesky lib C of
                   None \<Rightarrow> Inl LinAlgError
                 | Some L \<Rightarrow>
                     (case linalg_inv lib C of
                        None \<Rightarrow> Inl LinAlgError
                      | Some Ci \<Rightarrow>
                          Inr (s1\<lparr>ApprPostCov := C, CholApprPostCov := L,
                                  InvApprPostCov := Ci\<rparr>)))
          else Inr s1)"

subsection \<open>Resampling (lines 199-210)\<close>

text \<open>
  The draws are the columns of the block from \<open>d\<close> on, flattened. Indexing the proposals
  or the weights beyond their end, or taking the last of no index, raises IndexError.
\<close>

definition resample_indices :: "args \<Rightarrow> vec \<Rightarrow> mat \<Rightarrow> nat list" where
  "resample_indices a Pstates U =
     (let PstatesSum = cumsum Pstates
      in map (searchsorted PstatesSum) (concat (map (drop (arg_d a)) U)))"

definition resample :: "args \<Rightarrow> mat \<Rightarrow> vec \<Rightarrow> mat \<Rightarrow> engine \<Rightarrow> error + engine" where
  "resample a Proposals Pstates U s =
     (let Is = resample_indices a Pstates U in
      if \<exists>i \<in> set Is. length Proposals \<le> i then Inl IndexError
      else let xvals_new = map (\<lambda>i. Proposals ! i) Is in
        if \<exists>i \<in> set Is. length Pstates \<le> i then Inl IndexError
        else let AcceptValsNew = map (\<lambda>i. 1 - Pstates ! i) Is in
          if Is = [] then Inl IndexError
          else Inr (s\<lparr>xVals := xVals s @ [xvals_new],
                      AcceptVals := AcceptVals s @ [AcceptValsNew],
                      xI := Proposals ! last Is,
                      I_sel := last Is\<rparr>))"

subsection \<open>The loop and the constructor\<close>

definition step :: "numlib \<Rightarrow> args \<Rightarrow> int \<Rightarrow> nat \<Rightarrow> engine \<Rightarrow> error + engine" where
  "step lib a M n s =
     (let U = stream_block (seed_xs a) (arg_N a) n in
      bind_err (proposals lib a s U) (\<lambda>Proposals.
      let LogPosteriors = log_posteriors a s Proposals in
      bind_err (log_K a s Proposals) (\<lambda>LogK_ni.
      let LogKs = symmetrise LogK_ni;
          LogPstates = map2 (+) LogPosteriors LogKs in
      bind_err (normalise LogPstates) (\<lambda>Pstates.
      bind_err (moment_update a M n Pstates Proposals s) (\<lambda>s1.
      bind_err (cov_update lib a M n s1) (\<lambda>s2.
      resample a Proposals Pstates U s2))))))"

text \<open>The state after the iterations \<open>0, \<dots>, k-1\<close> of the loop.\<close>

primrec run_upto :: "numlib \<Rightarrow> args \<Rightarrow> int \<Rightarrow> engine \<Rightarrow> nat \<Rightarrow> error + engine" where
  "run_upto lib a M s0 0 = Inr s0"
| "run_upto lib a M s0 (Suc n) = bind_err (run_upto lib a M s0 n) (step lib a M n)"

text \<open>
  Lines 88-122: the state before the first iteration. \<^verbatim>\<open>np.zeros\<close> raises ValueError on a
  negative size; the first \<open>M\<close> slots of the accumulators are set to the initial mean and
  covariance.
\<close>

definition init_state :: "numlib \<Rightarrow> args \<Rightarrow> mat \<Rightarrow> int \<Rightarrow> int \<Rightarrow> error + engine" where
  "init_state lib a P iters M =
     (if iters + M < 0 then Inl ValueError
      else let len = nat (iters + M);
               m0 = slice_bound len M;
               ws = replicate len (replicate (arg_d a) 0);
               wc = replicate len (replicate (arg_d a) (replicate (arg_d a) 0))
           in case linalg_cholesky lib (arg_InitCov a) of
                None \<Rightarrow> Inl LinAlgError
              | Some L \<Rightarrow>
                  (case linalg_inv lib (arg_InitCov a) of
                     None \<Rightarrow> Inl LinAlgError
                   | Some Ci \<Rightarrow>
                       Inr \<lparr> xVals = [[arg_x0 a]],
                             AcceptVals = [],
                             WeightedSum = replicate m0 (arg_InitMean a) @ drop m0 ws,
                             WeightedCov = replicate m0 (arg_InitCov a) @ drop m0 wc,
                             WeightedFunSum = ws,
                             ApprPostMean = arg_InitMean a,
                             ApprPostCov = arg_InitCov a,
                             InvG_prior = P,
                             CholApprPostCov = L,
                             InvApprPostCov = Ci,
                             xI = arg_x0 a,
                             I_sel = 0 \<rparr>))"

definition BayesianLinReg :: "numlib \<Rightarrow> args \<Rightarrow> error + engine" where
  "BayesianLinReg lib a =
     bind_err (g_prior_precision lib (arg_alpha a) (data_X a) (data_NumOfSamples a)) (\<lambda>P.
     bind_err (NumOfIter (arg_d a) (arg_N a) (arg_PowerOfTwo a)) (\<lambda>iters.
     bind_err (burnin_M (arg_WeightIn a) (arg_N a)) (\<lambda>M.
     bind_err (init_state lib a P iters M) (\<lambda>s0.
       run_upto lib a M s0 (nat iters)))))"

subsection \<open>Accessors (lines 213-321)\<close>

text \<open>
  Each accessor returns its result with the engine it leaves behind.
  \<^verbatim>\<open>np.concatenate\<close> of no array raises ValueError; \<^verbatim>\<open>np.mean\<close> of nothing is nan;
  \<^verbatim>\<open>BurnIn/N\<close> with \<open>N = 0\<close> raises ZeroDivisionError.
\<close>

definition mean_vec :: "vec \<Rightarrow> error + real" where
  "mean_vec v = (if v = [] then Inl NotANumber else Inr (sum_list v / real (length v)))"

definition burnin_offset :: "int \<Rightarrow> int \<Rightarrow> error + int" where
  "burnin_offset BurnIn N =
     (if N = 0 then Inl ZeroDivisionError else Inr (py_int (of_int BurnIn / of_int N)))"

definition getSamples :: "engine \<Rightarrow> int \<Rightarrow> (error + mat) \<times> engine" where
  "getSamples self BurnIn =
     (if tl (xVals self) = [] then (Inl ValueError, self)
      else let Samples = concat (tl (xVals self))
           in (Inr (drop (slice_bound (length Samples) BurnIn) Samples), self))"

definition getAcceptRate :: "engine \<Rightarrow> int \<Rightarrow> (error + real) \<times> engine" where
  "getAcceptRate self BurnIn =
     (if AcceptVals self = [] then (Inl ValueError, self)
      else let Vals = concat (AcceptVals self)
           in (mean_vec (drop (slice_bound (length Vals) BurnIn) Vals), self))"

definition getIS_MeanEstimate :: "engine \<Rightarrow> int \<Rightarrow> int \<Rightarrow> (error + vec) \<times> engine" where
  "getIS_MeanEstimate self N BurnIn =
     (bind_err (burnin_offset BurnIn N) (\<lambda>k.
        mean_rows (drop (slice_bound (length (WeightedSum self)) k) (WeightedSum self))), self)"

definition getIS_FunMeanEstimate :: "engine \<Rightarrow> int \<Rightarrow> int \<Rightarrow> (error + vec) \<times> engine" where
  "getIS_FunMeanEstimate self N BurnIn =
     (bind_err (burnin_offset BurnIn N) (\<lambda>k.
        mean_rows (drop (slice_bound (length (WeightedFunSum self)) k) (WeightedFunSum self))), self)"

definition getIS_CovEstimate :: "engine \<Rightarrow> int \<Rightarrow> int \<Rightarrow> (error + mat) \<times> engine" where
  "getIS_CovEstimate self N BurnIn =
     (bind_err (burnin_offset BurnIn N) (\<lambda>k.
        mean_mats (drop (slice_bound (length (WeightedCov self)) k) (WeightedCov self))), self)"

subsection \<open>A run on small inputs\<close>

text \<open>
  One dimension, two proposals per iteration, a stream of \<open>2\<^sup>2 - 1 = 3\<close> rows, so one
  iteration. On 1-by-1 matrices the inverse is the reciprocal and the Cholesky factor the
  square root; the normal quantile at \<open>1/2\<close> is the location \<open>0\<close>, the only point where this
  run asks for it.
\<close>

fun inv1 :: "mat \<Rightarrow> mat option" where
  "inv1 [[x]] = (if x = 0 then None else Some [[1 / x]])"
| "inv1 A = None"

fun cholesky1 :: "mat \<Rightarrow> mat option" where
  "cholesky1 [[x]] = (if 0 < x then Some [[sqrt x]] else None)"
| "cholesky1 A = None"

definition lib1 :: numlib where
  "lib1 = \<lparr> linalg_inv = inv1, linalg_cholesky = cholesky1,
            norm_ppf = (\<lambda>s u. if 0 < s \<and> u = 1 / 2 then Some 0 else None) \<rparr>"

definition args1 :: args where
  "args1 = \<lparr> data_X = [[1], [1]], data_Obs = [1, 1], data_NumOfSamples = 2,
             seed_xs = [[1 / 2, 1 / 4], [1 / 2, 3 / 4], [1 / 2, 1 / 2]],
             arg_d = 1, arg_alpha = 1, arg_x0 = [2], arg_N = 2, arg_StepSize = 1,
             arg_PowerOfTwo = 2, arg_InitMean = [0], arg_InitCov = [[1]], arg_WeightIn = 0 \<rparr>"

definition state0 :: engine where
  "state0 = \<lparr> xVals = [[[2]]], AcceptVals = [], WeightedSum = [[0], [0]],
      WeightedCov = [[[1]], [[0]]], WeightedFunSum = [[0], [0]], ApprPostMean = [0],
      ApprPostCov = [[1]], InvG_prior = [[1]], CholApprPostCov = [[1]],
      InvApprPostCov = [[1]], xI = [2], I_sel = 0 \<rparr>"

definition state_m :: engine where
  "state_m = state0 \<lparr> WeightedSum := [[0], [2 / 3]], ApprPostMean := [1 / 3],
      WeightedCov := [[[1]], [[1]]] \<rparr>"

definition state1 :: engine where
  "state1 = \<lparr> xVals = [[[2]], [[2], [0]]], AcceptVals = [[2 / 3, 2 / 3]],
      WeightedSum = [[0], [2 / 3]],
      WeightedCov = [[[1]], [[1]]], WeightedFunSum = [[0], [0]], ApprPostMean = [1 / 3],
      ApprPostCov = [[1]], InvG_prior = [[1]], CholApprPostCov = [[1]],
      InvApprPostCov = [[1]], xI = [0], I_sel = 2 \<rparr>"

text \<open>
  The same run started far from the data, at \<open>x0 = 34\<close>: the log-weights of the first
  iteration are \<open>-1667, -579, -579\<close>, 1088 apart.
\<close>

definition args_far :: args where
  "args_far = args1 \<lparr> arg_x0 := [34] \<rparr>"

definition state_far :: engine where
  "state_far = state0 \<lparr> xVals := [[[34]]], xI := [34] \<rparr>"

definition state_far_m :: engine where
  "state_far_m = state_far \<lparr> WeightedCov := [[[1]], [[0]]] \<rparr>"

text \<open>
  A run of two iterations, of three proposals each on a stream of \<open>2\<^sup>3 - 1 = 7\<close> rows,
  started at the initial mean: the second iteration, with \<open>1 > 2d/N = 2/3\<close>, refreshes the
  covariance.
\<close>

definition args_r :: args where
  "args_r = args1 \<lparr> seed_xs := [[1 / 2, 1 / 8], [1 / 2, 3 / 8], [1 / 2, 7 / 8],
                                  [1 / 2, 1 / 8], [1 / 2, 3 / 8], [1 / 2, 7 / 8], [1 / 2, 1 / 2]],
                     arg_x0 := [0], arg_N := 3, arg_PowerOfTwo := 3 \<rparr>"

definition state_r0 :: engine where
  "state_r0 = \<lparr> xVals = [[[0]]], AcceptVals = [], WeightedSum = [[0], [0], [0]],
      WeightedCov = [[[1]], [[0]], [[0]]], WeightedFunSum = [[0], [0], [0]],
      ApprPostMean = [0], ApprPostCov = [[1]], InvG_prior = [[1]], CholApprPostCov = [[1]],
      InvApprPostCov = [[1]], xI = [0], I_sel = 0 \<rparr>"

definition state_r1 :: engine where
  "state_r1 = state_r0 \<lparr> xVals := [[[0]], [[0], [0], [0]]],
      AcceptVals := [[3 / 4, 3 / 4, 3 / 4]], I_sel := 3 \<rparr>"

definition state_r1c :: engine where
  "state_r1c = state_r1 \<lparr> ApprPostCov := [[1 / 3]], CholApprPostCov := [[sqrt (1 / 3)]],
      InvApprPostCov := [[3]] \<rparr>"

definition state_r2 :: engine where
  "state_r2 = state_r1c \<lparr> xVals := [[[0]], [[0], [0], [0]], [[0], [0], [0]]],
      AcceptVals := [[3 / 4, 3 / 4, 3 / 4], [3 / 4, 3 / 4, 3 / 4]] \<rparr>"

text \<open>
  A run with a negative \<open>WeightIn\<close> on a stream of \<open>2\<^sup>1 - 1 = 1\<close> row: no iteration, and
  no accumulator slot.
\<close>

definition args_e :: args where
  "args_e = args1 \<lparr> seed_xs := [[1 / 2, 1 / 4]], arg_PowerOfTwo := 1, arg_WeightIn := - 2 \<rparr>"

definition state_e :: engine where
  "state_e = state0 \<lparr> WeightedSum := [], WeightedCov := [], WeightedFunSum := [] \<rparr>"

section \<open>Properties\<close>

subsection \<open>The small run, evaluated\<close>

lemmas mat_defs = mat_mul_def transpose_m_def ncols_def col_def dot_def scale_def
  diagonal_def outer_def

lemma bind_err_simps [simp]: "bind_err (Inl e) f = Inl e" "bind_err (Inr v) f = f v"
  by (simp_all add: bind_err_def)

lemma bind_err_Inr_iff: "bind_err r f = Inr y \<longleftrightarrow> (\<exists>v. r = Inr v \<and> f v = Inr y)"
  by (cases r) simp_all

lemma ex_g: "g_prior_precision lib1 1 [[1], [1]] 2 = Inr [[1]]"
  by (simp add: g_prior_precision_def lib1_def mat_defs)

lemma ex_iters: "NumOfIter 1 2 2 = Inr 1"
  by (simp add: NumOfIter_def py_int_def)

lemma ex_M: "burnin_M 0 2 = Inr 1"
  by (simp add: burnin_M_def py_int_def)

lemma ex_init: "init_state lib1 args1 [[1]] 1 1 = Inr state0"
  by (simp add: init_state_def lib1_def args1_def state0_def slice_bound_def numeral_2_eq_2)

lemma ex_block:
  "stream_block (seed_xs args1) (arg_N args1) 0 = [[1 / 2, 1 / 4], [1 / 2, 3 / 4]]"
  by (simp add: stream_block_def args1_def)

lemma ex_proposals:
  "proposals lib1 args1 state0 [[1 / 2, 1 / 4], [1 / 2, 3 / 4]] = Inr [[2], [0], [0]]"
  by (simp add: proposals_def lib1_def args1_def state0_def mat_defs)

lemma ex_post: "log_posteriors args1 state0 [[2], [0], [0]] = [- 3, - 1, - 1]"
  by (simp add: log_posteriors_def args1_def state0_def mat_defs upt_conv_Cons)

lemma ex_logK: "log_K args1 state0 [[2], [0], [0]] = Inr [- 2, 0, 0]"
  by (simp add: log_K_def args1_def state0_def mat_defs upt_conv_Cons)

lemma ex_sym: "symmetrise [- 2, 0, 0] = [0, - 2, - 2]"
  by (simp add: symmetrise_def)

lemma float_max_ge: "2 ^ 971 \<le> float_max"
proof -
  have "(1::real) \<le> 2 ^ 53 - 1" by simp
  then have "1 * (2::real) ^ 971 \<le> (2 ^ 53 - 1) * 2 ^ 971"
    by (rule mult_right_mono) simp
  then show ?thesis by (simp add: float_max_def)
qed

lemma float_max_ge_small: "x \<le> 4 \<Longrightarrow> \<not> float_max < x"
proof -
  assume "x \<le> 4"
  also have "(4::real) = 2 ^ 2" by simp
  also have "\<dots> \<le> 2 ^ 971" by (rule power_increasing) simp_all
  also note float_max_ge
  finally show ?thesis by simp
qed

lemma ex_norm: "normalise [- 3, - 3, - 3] = Inr [1 / 3, 1 / 3, 1 / 3]"
  by (simp add: normalise_def log_normaliser_def float_max_ge_small exp_diff exp_minus)

lemma ex_moment:
  "moment_update args1 1 0 [1 / 3, 1 / 3, 1 / 3] [[2], [0], [0]] state0 = Inr state_m"
  by (simp add: moment_update_def args1_def state0_def state_m_def mat_defs index_def
      slice_bound_def mean_rows_def)

lemma ex_cov: "cov_update lib1 args1 1 0 state_m = Inr state_m"
  by (simp add: cov_update_def lib1_def args1_def state0_def state_m_def)

lemma ex_search1: "searchsorted [1 / 3, 2 / 3, 1] (1 / 4) = 0"
  unfolding searchsorted_def
  by (subst bsearch_left.simps, simp)+

lemma ex_search2: "searchsorted [1 / 3, 2 / 3, 1] (3 / 4) = 2"
  unfolding searchsorted_def
  by (subst bsearch_left.simps, simp)+

lemma ex_indices:
  "resample_indices args1 [1 / 3, 1 / 3, 1 / 3] [[1 / 2, 1 / 4], [1 / 2, 3 / 4]] = [0, 2]"
  by (simp add: resample_indices_def cumsum_def args1_def ex_search1 ex_search2)

lemma ex_resample:
  "resample args1 [[2], [0], [0]] [1 / 3, 1 / 3, 1 / 3] [[1 / 2, 1 / 4], [1 / 2, 3 / 4]] state_m
     = Inr state1"
  by (simp add: resample_def ex_indices state_m_def state0_def state1_def)

lemma ex_step: "step lib1 args1 1 0 state0 = Inr state1"
  by (simp add: step_def ex_block ex_proposals ex_post ex_logK ex_sym ex_norm ex_moment
      ex_cov ex_resample)

lemma ex_run_upto: "run_upto lib1 args1 1 state0 (Suc 0) = Inr state1"
  by (simp add: ex_step)

lemma ex_run: "BayesianLinReg lib1 args1 = Inr state1"
proof -
  have "g_prior_precision lib1 (arg_alpha args1) (data_X args1) (data_NumOfSamples args1)
          = Inr [[1]]"
    using ex_g by (simp add: args1_def)
  moreover have "NumOfIter (arg_d args1) (arg_N args1) (arg_PowerOfTwo args1) = Inr 1"
    using ex_iters by (simp add: args1_def)
  moreover have "burnin_M (arg_WeightIn args1) (arg_N args1) = Inr 1"
    using ex_M by (simp add: args1_def)
  ultimately show ?thesis
    by (simp add: BayesianLinReg_def ex_init ex_step)
qed


subsection \<open>Normalisation\<close>

lemma sum_list_map_insort:
  fixes f :: "real \<Rightarrow> real"
  shows "sum_list (map f (insort x xs)) = f x + sum_list (map f xs)"
  by (induction xs) auto

lemma sum_list_map_sort:
  fixes f :: "real \<Rightarrow> real"
  shows "sum_list (map f (sort xs)) = sum_list (map f xs)"
  by (induction xs) (auto simp: sum_list_map_insort)

lemma sum_list_exp_pos: "xs \<noteq> [] \<Longrightarrow> 0 < sum_list (map exp (xs :: real list))"
proof (induction xs)
  case Nil
  then show ?case by simp
next
  case (Cons x xs)
  have "0 \<le> sum_list (map exp xs)"
    by (rule sum_list_nonneg) auto
  moreover have "0 < exp x" by simp
  ultimately show ?case
    by (simp add: add_pos_nonneg)
qed

lemma exp_anchor_sum:
  fixes s0 :: real
  shows "exp s0 * sum_list (map (\<lambda>r. exp (r - s0)) rest) = sum_list (map exp rest)"
proof -
  have "exp s0 * sum_list (map (\<lambda>r. exp (r - s0)) rest)
          = sum_list (map (\<lambda>r. exp s0 * exp (r - s0)) rest)"
    by (simp add: sum_list_const_mult)
  also have "\<dots> = sum_list (map exp rest)"
    by (simp add: exp_add [symmetric])
  finally show ?thesis .
qed

lemma log_normaliser_Some:
  assumes "LogPstates \<noteq> []" and "\<not> overflows LogPstates"
  shows "\<exists>c. log_normaliser LogPstates = Inr (Some c) \<and>
             exp c = sum_list (map exp LogPstates)"
proof -
  from assms(1) have "sort LogPstates \<noteq> []"
    by (metis length_sort length_0_conv)
  then obtain s0 rest where s: "sort LogPstates = s0 # rest"
    by (cases "sort LogPstates") auto
  define t where "t = sum_list (map (\<lambda>r. exp (r - s0)) rest)"
  have t0: "0 \<le> t"
    unfolding t_def by (rule sum_list_nonneg) auto
  have "exp (s0 + ln (1 + t)) = exp s0 * (1 + t)"
    using t0 by (simp add: exp_add)
  also have "\<dots> = exp s0 + sum_list (map exp rest)"
    unfolding t_def by (simp add: distrib_left exp_anchor_sum)
  also have "\<dots> = sum_list (map exp (sort LogPstates))"
    by (simp add: s)
  also have "\<dots> = sum_list (map exp LogPstates)"
    by (rule sum_list_map_sort)
  finally have "exp (s0 + ln (1 + t)) = sum_list (map exp LogPstates)" .
  moreover have "log_normaliser LogPstates = Inr (Some (s0 + ln (1 + t)))"
    using assms(2) by (simp add: overflows_def log_normaliser_def s t_def Let_def split: if_splits)
  ultimately show ?thesis by blast
qed

text \<open>
  Short of overflow, and rounding apart, the scheme of lines 164-167 is the naive one:
  each weight is the exponential of its log-weight over the sum of all exponentials, so the
  weights are non-negative and sum to 1.
\<close>

lemma normalise_naive:
  assumes "LogPstates \<noteq> []" and "\<not> overflows LogPstates"
  shows "normalise LogPstates = Inr (naive_normalise LogPstates)"
proof -
  from log_normaliser_Some [OF assms] obtain c
    where c: "log_normaliser LogPstates = Inr (Some c)" "exp c = sum_list (map exp LogPstates)"
    by blast
  have "map exp (map (\<lambda>l. l - c) LogPstates) = naive_normalise LogPstates"
    by (simp add: naive_normalise_def exp_diff c(2))
  then show ?thesis
    by (simp add: normalise_def c(1))
qed

lemma sum_list_naive_normalise:
  assumes "LogPstates \<noteq> []"
  shows "sum_list (naive_normalise LogPstates) = 1"
proof -
  let ?Z = "sum_list (map exp LogPstates)"
  have Z: "0 < ?Z" by (rule sum_list_exp_pos [OF assms])
  have "sum_list (naive_normalise LogPstates) = sum_list (map (\<lambda>l. exp l * inverse ?Z) LogPstates)"
    by (simp add: naive_normalise_def divide_inverse)
  also have "\<dots> = ?Z * inverse ?Z"
    by (simp add: sum_list_mult_const)
  also have "\<dots> = 1"
    using Z by simp
  finally show ?thesis .
qed

lemma naive_normalise_nonneg:
  assumes "w \<in> set (naive_normalise LogPstates)"
  shows "0 \<le> w"
proof -
  from assms obtain l where "l \<in> set LogPstates" "w = exp l / sum_list (map exp LogPstates)"
    by (auto simp: naive_normalise_def)
  moreover from this have "LogPstates \<noteq> []" by auto
  ultimately show ?thesis
    using sum_list_exp_pos [of LogPstates] by simp
qed

lemma normalise_no_overflow:
  assumes "length LogPstates = Suc N" and "\<not> overflows LogPstates"
  shows "\<exists>Pstates. normalise LogPstates = Inr Pstates \<and> length Pstates = Suc N \<and>
           (\<forall>w \<in> set Pstates. 0 \<le> w) \<and> sum_list Pstates = 1"
proof -
  from assms(1) have ne: "LogPstates \<noteq> []" by auto
  have "length (naive_normalise LogPstates) = Suc N"
    by (simp add: naive_normalise_def assms(1))
  with normalise_naive [OF ne assms(2)] sum_list_naive_normalise [OF ne] naive_normalise_nonneg
  show ?thesis by blast
qed

text \<open>An exponent of 1024 or more is beyond the doubles, since \<open>ln 2 < 1\<close>.\<close>

lemma exp_overflow:
  assumes "1024 \<le> x"
  shows "float_max < exp x"
proof -
  have "float_max < 2 ^ 53 * 2 ^ 971"
    unfolding float_max_def by (rule mult_strict_right_mono) simp_all
  also have "\<dots> = (2::real) ^ 1024"
    by (simp add: power_add [symmetric])
  also have "\<dots> = exp (ln 2) ^ 1024"
    by simp
  also have "\<dots> = exp (1024 * ln 2)"
    using exp_of_nat_mult [of 1024 "ln 2 :: real"] by simp
  also have "\<dots> \<le> exp x"
  proof -
    have "1024 * ln (2::real) \<le> 1024 * 1"
      using ln_2_less_1 by simp
    also have "\<dots> \<le> x" using assms by simp
    finally show ?thesis by simp
  qed
  finally show ?thesis .
qed

lemma normalise_far: "normalise [- 1667, - 579, - 579] = Inr [0, 0, 0]"
proof -
  have "float_max < exp 1088"
    by (rule exp_overflow) simp
  also have "\<dots> \<le> 1 + (exp 1088 + exp 1088)"
    by (simp add: add_nonneg_nonneg)
  finally have "float_max < 1 + (exp 1088 + exp 1088)" .
  then show ?thesis
    by (simp add: normalise_def log_normaliser_def)
qed

subsection \<open>The run started far from the data\<close>

lemma far_init: "init_state lib1 args_far [[1]] 1 1 = Inr state_far"
  by (simp add: init_state_def lib1_def args_far_def args1_def state_far_def state0_def
      slice_bound_def numeral_2_eq_2)

lemma far_block:
  "stream_block (seed_xs args_far) (arg_N args_far) 0 = [[1 / 2, 1 / 4], [1 / 2, 3 / 4]]"
  by (simp add: stream_block_def args_far_def args1_def)

lemma far_proposals:
  "proposals lib1 args_far state_far [[1 / 2, 1 / 4], [1 / 2, 3 / 4]] = Inr [[34], [0], [0]]"
  by (simp add: proposals_def lib1_def args_far_def args1_def state_far_def state0_def mat_defs)

lemma far_post: "log_posteriors args_far state_far [[34], [0], [0]] = [- 1667, - 1, - 1]"
  by (simp add: log_posteriors_def args_far_def args1_def state_far_def state0_def mat_defs
      upt_conv_Cons)

lemma far_logK: "log_K args_far state_far [[34], [0], [0]] = Inr [- 578, 0, 0]"
  by (simp add: log_K_def args_far_def args1_def state_far_def state0_def mat_defs upt_conv_Cons)

lemma far_sym: "symmetrise [- 578, 0, 0] = [0, - 578, - 578]"
  by (simp add: symmetrise_def)

lemma far_moment:
  "moment_update args_far 1 0 [0, 0, 0] [[34], [0], [0]] state_far = Inr state_far_m"
  by (simp add: moment_update_def args_far_def args1_def state_far_def state_far_m_def state0_def
      mat_defs index_def slice_bound_def mean_rows_def)

lemma far_cov: "cov_update lib1 args_far 1 0 state_far_m = Inr state_far_m"
  by (simp add: cov_update_def lib1_def args_far_def args1_def state_far_def state_far_m_def
      state0_def)

lemma far_search1: "searchsorted [0, 0, 0] (1 / 4) = 3"
  unfolding searchsorted_def
  by (subst bsearch_left.simps, simp)+

lemma far_search2: "searchsorted [0, 0, 0] (3 / 4) = 3"
  unfolding searchsorted_def
  by (subst bsearch_left.simps, simp)+

lemma far_indices:
  "resample_indices args_far [0, 0, 0] [[1 / 2, 1 / 4], [1 / 2, 3 / 4]] = [3, 3]"
  by (simp add: resample_indices_def cumsum_def args_far_def args1_def far_search1 far_search2)

lemma far_resample:
  "resample args_far [[34], [0], [0]] [0, 0, 0] [[1 / 2, 1 / 4], [1 / 2, 3 / 4]] state_far_m
     = Inl IndexError"
  by (simp add: resample_def far_indices)

lemma far_step: "step lib1 args_far 1 0 state_far = Inl IndexError"
  by (simp add: step_def far_block far_proposals far_post far_logK far_sym normalise_far
      far_moment far_cov far_resample)

lemma far_run: "BayesianLinReg lib1 args_far = Inl IndexError"
proof -
  have "g_prior_precision lib1 (arg_alpha args_far) (data_X args_far) (data_NumOfSamples args_far)
          = Inr [[1]]"
    using ex_g by (simp add: args_far_def args1_def)
  moreover have "NumOfIter (arg_d args_far) (arg_N args_far) (arg_PowerOfTwo args_far) = Inr 1"
    using ex_iters by (simp add: args_far_def args1_def)
  moreover have "burnin_M (arg_WeightIn args_far) (arg_N args_far) = Inr 1"
    using ex_M by (simp add: args_far_def args1_def)
  ultimately show ?thesis
    by (simp add: BayesianLinReg_def far_init far_step)
qed

text \<open>
  C1. The weights of lines 164-167 are to be \<open>N+1\<close> non-negative reals of sum 1 for every
  finite vector of log-weights. In the first iteration of the run started at \<open>x0 = 34\<close>
  the log-weights are \<open>-1667, -579, -579\<close>; anchored at the smallest, the exponent 1088
  overflows, and the three weights are all zero, of sum 0.
\<close>

theorem normalise_weights_overflow:
  "init_state lib1 args_far [[1]] 1 1 = Inr state_far \<and>
   proposals lib1 args_far state_far (stream_block (seed_xs args_far) (arg_N args_far) 0)
     = Inr [[34], [0], [0]] \<and>
   log_K args_far state_far [[34], [0], [0]] = Inr [- 578, 0, 0] \<and>
   map2 (+) (log_posteriors args_far state_far [[34], [0], [0]]) (symmetrise [- 578, 0, 0])
     = [- 1667, - 579, - 579] \<and>
   normalise [- 1667, - 579, - 579] = Inr [0, 0, 0] \<and>
   sum_list [0, 0, 0 :: real] = 0"
  by (simp add: far_init far_block far_proposals far_post far_logK far_sym normalise_far)

text \<open>
  C2. The scheme of lines 164-167 is to return the weights of the naive scheme. On the
  log-weights \<open>-1667, -579, -579\<close> of the run started at \<open>x0 = 34\<close> it returns three zeros,
  where the naive scheme, whose largest exponential is \<open>exp (-579)\<close>, returns weights of
  sum 1, the last two \<open>exp (-579)\<close> over the total each.
\<close>

theorem normalise_differs_from_naive:
  "normalise [- 1667, - 579, - 579] = Inr [0, 0, 0] \<and>
   sum_list (naive_normalise [- 1667, - 579, - 579]) = 1 \<and>
   naive_normalise [- 1667, - 579, - 579] ! 1 = exp (- 579) / (exp (- 1667) + (exp (- 579) + exp (- 579))) \<and>
   naive_normalise [- 1667, - 579, - 579] \<noteq> [0, 0, 0]"
proof -
  have s: "sum_list (naive_normalise [- 1667, - 579, - 579]) = 1"
    by (rule sum_list_naive_normalise) simp
  have "naive_normalise [- 1667, - 579, - 579] \<noteq> [0, 0, 0]"
  proof
    assume "naive_normalise [- 1667, - 579, - 579] = [0, 0, 0]"
    with s show False by simp
  qed
  moreover have "naive_normalise [- 1667, - 579, - 579] ! 1
      = exp (- 579) / (exp (- 1667) + (exp (- 579) + exp (- 579)))"
    by (simp add: naive_normalise_def)
  ultimately show ?thesis
    using normalise_far s by simp
qed

subsection \<open>Stream blocks\<close>







subsection \<open>Reverse-kernel correction\<close>

lemma symmetrise_nth:
  assumes "i < length LogK_ni"
  shows "symmetrise LogK_ni ! i = sum_list LogK_ni - LogK_ni ! i"
  using assms by (simp add: symmetrise_def)

lemma sum_list_minus_nth:
  fixes v :: "real list"
  assumes "i < length v"
  shows "sum_list v - v ! i = (\<Sum>j \<in> {..<length v} - {i}. v ! j)"
proof -
  have "sum_list v = (\<Sum>j \<in> {..<length v}. v ! j)"
    by (simp add: sum_list_sum_nth atLeast0LessThan)
  also have "\<dots> = v ! i + (\<Sum>j \<in> {..<length v} - {i}. v ! j)"
    using assms by (simp add: sum.remove)
  finally show ?thesis by simp
qed

text \<open>
  C8. For the log-transition-densities \<open>LogK_ni\<close> of the \<open>N+1\<close> proposals and every
  index \<open>i \<le> N\<close>, the symmetrised entry is the sum of all entries minus entry \<open>i\<close>, which
  is the sum of the entries of all other proposals.
\<close>

theorem symmetrise_sum_of_others:
  assumes "length LogK_ni = Suc N" and "i \<le> N"
  shows "length (symmetrise LogK_ni) = Suc N \<and>
         symmetrise LogK_ni ! i = sum_list LogK_ni - LogK_ni ! i \<and>
         symmetrise LogK_ni ! i = (\<Sum>j \<in> {..N} - {i}. LogK_ni ! j)"
proof -
  from assms have i: "i < length LogK_ni" by simp
  have "{..<length LogK_ni} = {..N}"
    using assms(1) by (simp add: lessThan_Suc_atMost)
  with sum_list_minus_nth [OF i] symmetrise_nth [OF i] assms(1)
  show ?thesis by (simp add: symmetrise_def)
qed

theorem symmetrise_sum_of_others_witness:
  "length [- 2, 0, 0 :: real] = Suc 2 \<and> (1::nat) \<le> 2 \<and>
   symmetrise [- 2, 0, 0] ! 1 = - 2 \<and>
   (\<Sum>j \<in> {..2} - {1::nat}. [- 2, 0, 0 :: real] ! j) = - 2"
  using symmetrise_sum_of_others [of "[- 2, 0, 0]" 2 1] by (simp add: ex_sym)

subsection \<open>Accessors\<close>

text \<open>
  C9. Each of \<open>getSamples\<close>, \<open>getAcceptRate\<close>, \<open>getIS_MeanEstimate\<close> and
  \<open>getIS_CovEstimate\<close> leaves the engine as it found it, for every burn-in argument, and a
  second call with the same argument returns what the first returned.
\<close>

theorem accessors_pure:
  "snd (getSamples self BurnIn) = self \<and>
   snd (getAcceptRate self BurnIn) = self \<and>
   snd (getIS_MeanEstimate self N BurnIn) = self \<and>
   snd (getIS_CovEstimate self N BurnIn) = self \<and>
   fst (getSamples (snd (getSamples self BurnIn)) BurnIn) = fst (getSamples self BurnIn) \<and>
   fst (getAcceptRate (snd (getAcceptRate self BurnIn)) BurnIn)
     = fst (getAcceptRate self BurnIn) \<and>
   fst (getIS_MeanEstimate (snd (getIS_MeanEstimate self N BurnIn)) N BurnIn)
     = fst (getIS_MeanEstimate self N BurnIn) \<and>
   fst (getIS_CovEstimate (snd (getIS_CovEstimate self N BurnIn)) N BurnIn)
     = fst (getIS_CovEstimate self N BurnIn)"
  by (simp add: getSamples_def getAcceptRate_def getIS_MeanEstimate_def getIS_CovEstimate_def
      Let_def)

theorem accessors_pure_witness:
  "getSamples state1 1 = (Inr [[0]], state1) \<and>
   fst (getSamples (snd (getSamples state1 1)) 1) = Inr [[0]] \<and>
   getAcceptRate state1 0 = (Inr (2 / 3), state1) \<and>
   getIS_MeanEstimate state1 2 0 = (Inr [1 / 3], state1)"
proof -
  have "getSamples state1 1 = (Inr [[0]], state1)"
    by (simp add: getSamples_def state1_def slice_bound_def)
  moreover have "getAcceptRate state1 0 = (Inr (2 / 3), state1)"
    by (simp add: getAcceptRate_def state1_def slice_bound_def mean_vec_def)
  moreover have "getIS_MeanEstimate state1 2 0 = (Inr [1 / 3], state1)"
    by (simp add: getIS_MeanEstimate_def burnin_offset_def py_int_def state1_def
        slice_bound_def mean_rows_def transpose_m_def ncols_def col_def)
  ultimately show ?thesis
    using accessors_pure [of state1 1 2] by simp
qed

subsection \<open>What each stage of an iteration changes\<close>

lemma moment_update_frame:
  assumes "moment_update a M n Pstates Proposals s = Inr s'"
  shows "xVals s' = xVals s" "AcceptVals s' = AcceptVals s"
    "WeightedFunSum s' = WeightedFunSum s" "ApprPostCov s' = ApprPostCov s"
    "InvG_prior s' = InvG_prior s" "CholApprPostCov s' = CholApprPostCov s"
    "InvApprPostCov s' = InvApprPostCov s" "xI s' = xI s" "I_sel s' = I_sel s"
  using assms
  by (auto simp: moment_update_def Let_def bind_err_Inr_iff split: if_splits)

lemma moment_update_sum:
  assumes "moment_update a M n Pstates Proposals s = Inr s'"
  shows "\<exists>i v. index (length (WeightedSum s)) (int n + M) = Inr i \<and>
           WeightedSum s' = (WeightedSum s)[i := v] \<and>
           mean_rows (take (slice_bound (length (WeightedSum s')) (int n + M + 1))
                           (WeightedSum s')) = Inr (ApprPostMean s')"
  using assms
  by (auto simp: moment_update_def Let_def bind_err_Inr_iff split: if_splits)

lemma moment_update_cov:
  assumes "moment_update a M n Pstates Proposals s = Inr s'"
  shows "\<exists>k c. index (length (WeightedCov s)) (int n + M) = Inr k \<and>
           WeightedCov s' = (WeightedCov s)[k := c]"
  using assms
  by (auto simp: moment_update_def Let_def bind_err_Inr_iff split: if_splits)

lemma cov_update_frame:
  assumes "cov_update lib a M n s = Inr s'"
  shows "xVals s' = xVals s" "AcceptVals s' = AcceptVals s"
    "WeightedSum s' = WeightedSum s" "WeightedCov s' = WeightedCov s"
    "WeightedFunSum s' = WeightedFunSum s" "ApprPostMean s' = ApprPostMean s"
    "InvG_prior s' = InvG_prior s" "xI s' = xI s" "I_sel s' = I_sel s"
  using assms
  by (auto simp: cov_update_def Let_def bind_err_def split: if_splits option.splits sum.splits)

lemma cov_update_guard:
  assumes "cov_update lib a M n s = Inr s'"
  shows "if real n > real (2 * arg_d a) / real (arg_N a)
         then \<exists>C. mean_mats (take (slice_bound (length (WeightedCov s)) (int n + M + 1))
                               (WeightedCov s)) = Inr C \<and>
                  ApprPostCov s' = C \<and>
                  linalg_cholesky lib C = Some (CholApprPostCov s') \<and>
                  linalg_inv lib C = Some (InvApprPostCov s')
         else ApprPostCov s' = ApprPostCov s \<and>
              CholApprPostCov s' = CholApprPostCov s \<and>
              linalg_inv lib (ApprPostCov s) = Some (InvApprPostCov s')"
  using assms
  by (auto simp: cov_update_def Let_def bind_err_def split: if_splits option.splits sum.splits)

lemma resample_frame:
  assumes "resample a Proposals Pstates U s = Inr s'"
  shows "WeightedSum s' = WeightedSum s" "WeightedCov s' = WeightedCov s"
    "WeightedFunSum s' = WeightedFunSum s" "ApprPostMean s' = ApprPostMean s"
    "ApprPostCov s' = ApprPostCov s" "InvG_prior s' = InvG_prior s"
    "CholApprPostCov s' = CholApprPostCov s" "InvApprPostCov s' = InvApprPostCov s"
  using assms
  by (auto simp: resample_def Let_def split: if_splits)

lemma step_stages:
  assumes "step lib a M n s = Inr s'"
  obtains Proposals Pstates s1 s2 where
    "proposals lib a s (stream_block (seed_xs a) (arg_N a) n) = Inr Proposals"
    "moment_update a M n Pstates Proposals s = Inr s1"
    "cov_update lib a M n s1 = Inr s2"
    "resample a Proposals Pstates (stream_block (seed_xs a) (arg_N a) n) s2 = Inr s'"
  using assms
  by (auto simp: step_def Let_def bind_err_Inr_iff)


lemma step_frame:
  assumes "step lib a M n s = Inr s'"
  shows "WeightedFunSum s' = WeightedFunSum s" "InvG_prior s' = InvG_prior s"
proof -
  from assms obtain Proposals Pstates s1 s2 where
    m: "moment_update a M n Pstates Proposals s = Inr s1" and
    c: "cov_update lib a M n s1 = Inr s2" and
    r: "resample a Proposals Pstates (stream_block (seed_xs a) (arg_N a) n) s2 = Inr s'"
    by (rule step_stages)
  show "WeightedFunSum s' = WeightedFunSum s"
    by (simp add: resample_frame(3) [OF r] cov_update_frame(5) [OF c] moment_update_frame(3) [OF m])
  show "InvG_prior s' = InvG_prior s"
    by (simp add: resample_frame(6) [OF r] cov_update_frame(7) [OF c] moment_update_frame(5) [OF m])
qed

lemma step_mean:
  assumes "step lib a M n s = Inr s'"
  shows "\<exists>i v. index (length (WeightedSum s)) (int n + M) = Inr i \<and>
           WeightedSum s' = (WeightedSum s)[i := v] \<and>
           mean_rows (take (slice_bound (length (WeightedSum s')) (int n + M + 1))
                           (WeightedSum s')) = Inr (ApprPostMean s')"
proof -
  from assms obtain Proposals Pstates s1 s2 where
    m: "moment_update a M n Pstates Proposals s = Inr s1" and
    c: "cov_update lib a M n s1 = Inr s2" and
    r: "resample a Proposals Pstates (stream_block (seed_xs a) (arg_N a) n) s2 = Inr s'"
    by (rule step_stages)
  have "WeightedSum s' = WeightedSum s1" "ApprPostMean s' = ApprPostMean s1"
    by (simp_all add: resample_frame [OF r] cov_update_frame [OF c])
  with moment_update_sum [OF m] show ?thesis by simp
qed

lemma step_cov:
  assumes "step lib a M n s = Inr s'"
  shows "if real n > real (2 * arg_d a) / real (arg_N a)
         then \<exists>C. mean_mats (take (slice_bound (length (WeightedCov s')) (int n + M + 1))
                               (WeightedCov s')) = Inr C \<and>
                  ApprPostCov s' = C \<and>
                  linalg_cholesky lib C = Some (CholApprPostCov s') \<and>
                  linalg_inv lib C = Some (InvApprPostCov s')
         else ApprPostCov s' = ApprPostCov s \<and>
              CholApprPostCov s' = CholApprPostCov s \<and>
              linalg_inv lib (ApprPostCov s) = Some (InvApprPostCov s')"
proof -
  from assms obtain Proposals Pstates s1 s2 where
    m: "moment_update a M n Pstates Proposals s = Inr s1" and
    c: "cov_update lib a M n s1 = Inr s2" and
    r: "resample a Proposals Pstates (stream_block (seed_xs a) (arg_N a) n) s2 = Inr s'"
    by (rule step_stages)
  have e: "ApprPostCov s' = ApprPostCov s2" "CholApprPostCov s' = CholApprPostCov s2"
    "InvApprPostCov s' = InvApprPostCov s2" "WeightedCov s' = WeightedCov s1"
    by (simp_all add: resample_frame [OF r] cov_update_frame [OF c])
  have f: "ApprPostCov s1 = ApprPostCov s" "CholApprPostCov s1 = CholApprPostCov s"
    by (simp_all add: moment_update_frame [OF m])
  from cov_update_guard [OF c] show ?thesis
    unfolding e f by (auto split: if_splits)
qed

lemma index_nonneg:
  assumes "index len i = Inr j" and "0 \<le> i"
  shows "j = nat i \<and> nat i < len"
  using assms by (auto simp: index_def split: if_splits)

lemma run_upto_frame:
  assumes "run_upto lib a M s0 k = Inr s"
  shows "WeightedFunSum s = WeightedFunSum s0 \<and> InvG_prior s = InvG_prior s0 \<and>
         length (WeightedSum s) = length (WeightedSum s0) \<and>
         (0 \<le> M \<longrightarrow> take (nat M) (WeightedSum s) = take (nat M) (WeightedSum s0))"
  using assms
proof (induction k arbitrary: s)
  case 0
  then show ?case by simp
next
  case (Suc k)
  from Suc.prems obtain t where t: "run_upto lib a M s0 k = Inr t" and
    st: "step lib a M k t = Inr s"
    by (auto simp: bind_err_Inr_iff)
  from step_mean [OF st] obtain i v where
    i: "index (length (WeightedSum t)) (int k + M) = Inr i" and
    w: "WeightedSum s = (WeightedSum t)[i := v]"
    by blast
  have "take (nat M) (WeightedSum s) = take (nat M) (WeightedSum t)" if "0 \<le> M"
  proof -
    from index_nonneg [OF i] that have "i = nat (int k + M)" by simp
    with that have "nat M \<le> i" by simp
    then show ?thesis by (simp add: w)
  qed
  with Suc.IH [OF t] step_frame [OF st] w show ?case by simp
qed

lemma run_upto_cov_unchanged:
  assumes "run_upto lib a M s0 k = Inr s"
    and "\<forall>n < k. \<not> real n > real (2 * arg_d a) / real (arg_N a)"
  shows "ApprPostCov s = ApprPostCov s0 \<and> CholApprPostCov s = CholApprPostCov s0"
  using assms
proof (induction k arbitrary: s)
  case 0
  then show ?case by simp
next
  case (Suc k)
  from Suc.prems(1) obtain t where t: "run_upto lib a M s0 k = Inr t" and
    st: "step lib a M k t = Inr s"
    by (auto simp: bind_err_Inr_iff)
  from Suc.prems(2) have g: "\<not> real k > real (2 * arg_d a) / real (arg_N a)"
    and "\<forall>n < k. \<not> real n > real (2 * arg_d a) / real (arg_N a)"
    by simp_all
  with Suc.IH [OF t] step_cov [OF st] show ?case by simp
qed

lemma init_state_fields:
  assumes "init_state lib a P iters M = Inr s0"
  shows "0 \<le> iters + M"
    "WeightedFunSum s0 = replicate (nat (iters + M)) (replicate (arg_d a) 0)"
    "InvG_prior s0 = P" "ApprPostCov s0 = arg_InitCov a"
    "linalg_cholesky lib (arg_InitCov a) = Some (CholApprPostCov s0)"
    "linalg_inv lib (arg_InitCov a) = Some (InvApprPostCov s0)"
    "length (WeightedSum s0) = nat (iters + M)"
    "take (slice_bound (nat (iters + M)) M) (WeightedSum s0)
       = replicate (slice_bound (nat (iters + M)) M) (arg_InitMean a)"
    "ApprPostMean s0 = arg_InitMean a"
  using assms
  by (auto simp: init_state_def Let_def slice_bound_def split: if_splits option.splits)

lemma BayesianLinReg_stages:
  assumes "BayesianLinReg lib a = Inr s"
  obtains P iters M s0 where
    "g_prior_precision lib (arg_alpha a) (data_X a) (data_NumOfSamples a) = Inr P"
    "NumOfIter (arg_d a) (arg_N a) (arg_PowerOfTwo a) = Inr iters"
    "burnin_M (arg_WeightIn a) (arg_N a) = Inr M"
    "init_state lib a P iters M = Inr s0"
    "run_upto lib a M s0 (nat iters) = Inr s"
  using assms by (auto simp: BayesianLinReg_def bind_err_Inr_iff)

lemma mean_rows_zeros:
  assumes "0 < m"
  shows "mean_rows (replicate m (replicate k 0)) = Inr (replicate k 0)"
proof -
  from assms obtain m' where m: "m = Suc m'" by (cases m) auto
  have "transpose_m (replicate m (replicate k (0::real))) = map (\<lambda>j. replicate m 0) [0..<k]"
    by (simp add: transpose_m_def ncols_def col_def m)
  then have "map (\<lambda>c. sum_list c / real m) (transpose_m (replicate m (replicate k (0::real))))
      = map (\<lambda>j. 0) [0..<k]"
    by (simp add: sum_list_replicate)
  also have "\<dots> = replicate k 0"
    by (simp add: map_replicate_const)
  finally show ?thesis
    using assms by (simp add: mean_rows_def)
qed

text \<open>
  C10, as amended. After a completed run whose accumulators have at least one slot (as
  they have for every non-negative \<open>WeightIn\<close>), and for every burn-in argument whose offset
  \<^verbatim>\<open>int(BurnIn/N)\<close> is below the number \<open>NumOfIter + M\<close> of slots,
  \<open>getIS_FunMeanEstimate\<close> returns the zero vector of dimension \<open>d\<close>: the accumulator
  \<open>WeightedFunSum\<close> is created as zeros and no iteration writes it.
\<close>

theorem fun_mean_estimate_zero:
  assumes "BayesianLinReg lib a = Inr self"
    and "NumOfIter (arg_d a) (arg_N a) (arg_PowerOfTwo a) = Inr iters"
    and "burnin_M (arg_WeightIn a) (arg_N a) = Inr M"
    and "0 < iters + M"
    and "burnin_offset BurnIn N = Inr k" and "k < iters + M"
  shows "getIS_FunMeanEstimate self N BurnIn = (Inr (replicate (arg_d a) 0), self)"
proof -
  from assms(1) obtain P s0 where
    i: "init_state lib a P iters M = Inr s0" and
    r: "run_upto lib a M s0 (nat iters) = Inr self"
    by (rule BayesianLinReg_stages) (simp add: assms(2,3))
  let ?len = "nat (iters + M)"
  have w: "WeightedFunSum self = replicate ?len (replicate (arg_d a) 0)"
    using run_upto_frame [OF r] init_state_fields(2) [OF i] by simp
  have "slice_bound ?len k < ?len"
    using assms(4,6) by (auto simp: slice_bound_def)
  then have "0 < ?len - slice_bound ?len k" by simp
  then have "mean_rows (drop (slice_bound ?len k) (replicate ?len (replicate (arg_d a) 0)))
      = Inr (replicate (arg_d a) 0)"
    by (simp add: mean_rows_zeros)
  then show ?thesis
    by (simp add: getIS_FunMeanEstimate_def assms(5) w)
qed

lemma ex_args:
  "NumOfIter (arg_d args1) (arg_N args1) (arg_PowerOfTwo args1) = Inr 1"
  "burnin_M (arg_WeightIn args1) (arg_N args1) = Inr 1"
  using ex_iters ex_M by (simp_all add: args1_def)

theorem fun_mean_estimate_zero_witness:
  "BayesianLinReg lib1 args1 = Inr state1 \<and>
   NumOfIter (arg_d args1) (arg_N args1) (arg_PowerOfTwo args1) = Inr 1 \<and>
   burnin_M (arg_WeightIn args1) (arg_N args1) = Inr 1 \<and>
   burnin_offset 3 2 = Inr 1 \<and> (1::int) < 1 + 1 \<and>
   getIS_FunMeanEstimate state1 2 3 = (Inr [0], state1)"
proof -
  have b: "burnin_offset 3 2 = Inr 1"
    by (simp add: burnin_offset_def py_int_def)
  have d: "replicate (arg_d args1) 0 = [0::real]"
    by (simp add: args1_def)
  from fun_mean_estimate_zero [OF ex_run ex_args _ b] have
    "getIS_FunMeanEstimate state1 2 3 = (Inr (replicate (arg_d args1) 0), state1)"
    by simp
  with ex_run ex_args b show ?thesis
    by (simp add: d)
qed

lemma py_int_minus_one: "py_int (- 1) = - 1"
  by (simp add: py_int_def ceiling_def)

lemma e_iters: "NumOfIter (arg_d args_e) (arg_N args_e) (arg_PowerOfTwo args_e) = Inr 0"
  by (simp add: NumOfIter_def py_int_def args_e_def args1_def)

lemma e_M: "burnin_M (arg_WeightIn args_e) (arg_N args_e) = Inr 0"
  by (simp add: burnin_M_def py_int_minus_one args_e_def args1_def)

lemma e_init: "init_state lib1 args_e [[1]] 0 0 = Inr state_e"
  by (simp add: init_state_def lib1_def args_e_def args1_def state_e_def state0_def
      slice_bound_def)

lemma e_run: "BayesianLinReg lib1 args_e = Inr state_e"
proof -
  have "g_prior_precision lib1 (arg_alpha args_e) (data_X args_e) (data_NumOfSamples args_e)
          = Inr [[1]]"
    using ex_g by (simp add: args_e_def args1_def)
  then show ?thesis
    by (simp add: BayesianLinReg_def e_iters e_M e_init)
qed

text \<open>
  C10, as stated, asks only for an offset below the number of slots. In the run with
  \<open>WeightIn = -2\<close>, \<open>N = 2\<close> and a stream of one row there is no iteration and \<open>M = 0\<close>, so
  no slot; the burn-in argument \<open>-2\<close> has the offset \<open>-1 < 0\<close>, the slice is empty and its
  mean is nan, not the zero vector.
\<close>

theorem fun_mean_estimate_zero_counterexample:
  "BayesianLinReg lib1 args_e = Inr state_e \<and>
   NumOfIter (arg_d args_e) (arg_N args_e) (arg_PowerOfTwo args_e) = Inr 0 \<and>
   burnin_M (arg_WeightIn args_e) (arg_N args_e) = Inr 0 \<and>
   burnin_offset (- 2) 2 = Inr (- 1) \<and> (- 1 :: int) < 0 + 0 \<and>
   getIS_FunMeanEstimate state_e 2 (- 2) = (Inl NotANumber, state_e) \<and>
   getIS_FunMeanEstimate state_e 2 (- 2) \<noteq> (Inr (replicate (arg_d args_e) 0), state_e)"
proof -
  have b: "burnin_offset (- 2) 2 = Inr (- 1)"
    by (simp add: burnin_offset_def py_int_minus_one)
  have g: "getIS_FunMeanEstimate state_e 2 (- 2) = (Inl NotANumber, state_e)"
    by (simp add: getIS_FunMeanEstimate_def b state_e_def slice_bound_def mean_rows_def)
  from e_run e_iters e_M b g show ?thesis
    by simp
qed

subsection \<open>The run of two iterations, evaluated\<close>

lemma r_g:
  "g_prior_precision lib1 (arg_alpha args_r) (data_X args_r) (data_NumOfSamples args_r)
     = Inr [[1]]"
  using ex_g by (simp add: args_r_def args1_def)

lemma r_iters: "NumOfIter (arg_d args_r) (arg_N args_r) (arg_PowerOfTwo args_r) = Inr 2"
  by (simp add: NumOfIter_def py_int_def args_r_def args1_def)

lemma r_M: "burnin_M (arg_WeightIn args_r) (arg_N args_r) = Inr 1"
  by (simp add: burnin_M_def py_int_def args_r_def args1_def)

lemma r_init: "init_state lib1 args_r [[1]] 2 1 = Inr state_r0"
  by (simp add: init_state_def lib1_def args_r_def args1_def state_r0_def slice_bound_def
      numeral_3_eq_3)

lemma r_block0:
  "stream_block (seed_xs args_r) (arg_N args_r) 0 = [[1 / 2, 1 / 8], [1 / 2, 3 / 8], [1 / 2, 7 / 8]]"
  by (simp add: stream_block_def args_r_def args1_def)

lemma r_block1:
  "stream_block (seed_xs args_r) (arg_N args_r) 1 = [[1 / 2, 1 / 8], [1 / 2, 3 / 8], [1 / 2, 7 / 8]]"
  by (simp add: stream_block_def args_r_def args1_def)

lemma r_proposals:
  "xI s = [0] \<Longrightarrow> ApprPostMean s = [0] \<Longrightarrow> CholApprPostCov s = [[1]] \<Longrightarrow>
   proposals lib1 args_r s [[1 / 2, 1 / 8], [1 / 2, 3 / 8], [1 / 2, 7 / 8]]
     = Inr [[0], [0], [0], [0]]"
  by (simp add: proposals_def lib1_def args_r_def args1_def mat_defs)

lemma r_post:
  "InvG_prior s = [[1]] \<Longrightarrow>
   log_posteriors args_r s [[0], [0], [0], [0]] = [- 1, - 1, - 1, - 1]"
  by (simp add: log_posteriors_def args_r_def args1_def mat_defs upt_conv_Cons)

lemma r_logK:
  "ApprPostMean s = [0] \<Longrightarrow> InvApprPostCov s = [[1]] \<Longrightarrow>
   log_K args_r s [[0], [0], [0], [0]] = Inr [0, 0, 0, 0]"
  by (simp add: log_K_def args_r_def args1_def mat_defs upt_conv_Cons)

lemma r_sym: "symmetrise [0, 0, 0, 0] = [0, 0, 0, 0]"
  by (simp add: symmetrise_def)

lemma r_norm: "normalise [- 1, - 1, - 1, - 1] = Inr [1 / 4, 1 / 4, 1 / 4, 1 / 4]"
  by (simp add: normalise_def log_normaliser_def float_max_ge_small exp_diff exp_minus)

lemma r_moment0:
  "moment_update args_r 1 0 [1 / 4, 1 / 4, 1 / 4, 1 / 4] [[0], [0], [0], [0]] state_r0
     = Inr state_r0"
  by (simp add: moment_update_def args_r_def args1_def state_r0_def mat_defs index_def
      slice_bound_def mean_rows_def)

lemma r_moment1:
  "moment_update args_r 1 1 [1 / 4, 1 / 4, 1 / 4, 1 / 4] [[0], [0], [0], [0]] state_r1
     = Inr state_r1"
  by (simp add: moment_update_def args_r_def args1_def state_r1_def state_r0_def mat_defs
      index_def slice_bound_def mean_rows_def)

lemma r_cov0: "cov_update lib1 args_r 1 0 state_r0 = Inr state_r0"
  by (simp add: cov_update_def lib1_def args_r_def args1_def state_r0_def)

lemma r_mean_mats:
  "mean_mats (take (slice_bound (length (WeightedCov state_r1)) (int 1 + 1 + 1))
                   (WeightedCov state_r1)) = Inr [[1 / 3]]"
  by (simp add: mean_mats_def state_r1_def state_r0_def slice_bound_def ncols_def)

lemma r_cov1: "cov_update lib1 args_r 1 1 state_r1 = Inr state_r1c"
  using r_mean_mats
  by (simp add: cov_update_def lib1_def args_r_def args1_def state_r1c_def state_r1_def
      state_r0_def)

lemma r_search1: "searchsorted [1 / 4, 1 / 2, 3 / 4, 1] (1 / 8) = 0"
  unfolding searchsorted_def
  by (subst bsearch_left.simps, simp)+

lemma r_search2: "searchsorted [1 / 4, 1 / 2, 3 / 4, 1] (3 / 8) = 1"
  unfolding searchsorted_def
  by (subst bsearch_left.simps, simp)+

lemma r_search3: "searchsorted [1 / 4, 1 / 2, 3 / 4, 1] (7 / 8) = 3"
  unfolding searchsorted_def
  by (subst bsearch_left.simps, simp)+

lemma r_indices:
  "resample_indices args_r [1 / 4, 1 / 4, 1 / 4, 1 / 4]
     [[1 / 2, 1 / 8], [1 / 2, 3 / 8], [1 / 2, 7 / 8]] = [0, 1, 3]"
  by (simp add: resample_indices_def cumsum_def args_r_def args1_def r_search1 r_search2
      r_search3)

lemma r_resample0:
  "resample args_r [[0], [0], [0], [0]] [1 / 4, 1 / 4, 1 / 4, 1 / 4]
     [[1 / 2, 1 / 8], [1 / 2, 3 / 8], [1 / 2, 7 / 8]] state_r0 = Inr state_r1"
  by (simp add: resample_def r_indices state_r0_def state_r1_def)

lemma r_resample1:
  "resample args_r [[0], [0], [0], [0]] [1 / 4, 1 / 4, 1 / 4, 1 / 4]
     [[1 / 2, 1 / 8], [1 / 2, 3 / 8], [1 / 2, 7 / 8]] state_r1c = Inr state_r2"
  by (simp add: resample_def r_indices state_r0_def state_r1_def state_r1c_def state_r2_def)

lemma r_step0: "step lib1 args_r 1 0 state_r0 = Inr state_r1"
proof -
  have f: "xI state_r0 = [0]" "ApprPostMean state_r0 = [0]" "CholApprPostCov state_r0 = [[1]]"
    "InvG_prior state_r0 = [[1]]" "InvApprPostCov state_r0 = [[1]]"
    by (simp_all add: state_r0_def)
  show ?thesis
    by (simp add: step_def r_block0 r_proposals [OF f(1,2,3)] r_post [OF f(4)]
        r_logK [OF f(2,5)] r_sym r_norm r_moment0 r_cov0 r_resample0)
qed

lemma r_step1: "step lib1 args_r 1 1 state_r1 = Inr state_r2"
proof -
  have f: "xI state_r1 = [0]" "ApprPostMean state_r1 = [0]" "CholApprPostCov state_r1 = [[1]]"
    "InvG_prior state_r1 = [[1]]" "InvApprPostCov state_r1 = [[1]]"
    by (simp_all add: state_r1_def state_r0_def)
  have "step lib1 args_r 1 (Suc 0) state_r1 = Inr state_r2"
    using r_block1 r_moment1 r_cov1
    by (simp add: step_def r_proposals [OF f(1,2,3)] r_post [OF f(4)]
        r_logK [OF f(2,5)] r_sym r_norm r_resample1)
  then show ?thesis by simp
qed

lemma r_run_upto1: "run_upto lib1 args_r 1 state_r0 (Suc 0) = Inr state_r1"
  by (simp add: r_step0)

lemma r_run_upto2: "run_upto lib1 args_r 1 state_r0 (Suc (Suc 0)) = Inr state_r2"
  using r_step1 by (simp add: r_step0)

lemma r_run: "BayesianLinReg lib1 args_r = Inr state_r2"
  using r_run_upto2 by (simp add: BayesianLinReg_def r_g r_iters r_M r_init numeral_2_eq_2)

subsection \<open>Covariance refresh\<close>

text \<open>
  C3. In the iteration with loop index \<open>n\<close> the approximate posterior covariance, its
  Cholesky factor and its inverse are recomputed from the weighted-covariance slots when
  \<open>n > 2d/N\<close>; otherwise covariance and Cholesky factor stay as they were and the inverse
  is that of the unchanged covariance. As long as no loop index has exceeded \<open>2d/N\<close> the
  covariance is \<open>InitCov\<close> and the factor is the Cholesky factor of \<open>InitCov\<close>. For
  \<open>d = 2\<close> and \<open>N = 1\<close> the guard holds from index 5 on and at no index up to 4. Where
  the inverse and the Cholesky factor exist, the stage of lines 187-192 returns: with the
  refreshed covariance, factor and inverse when \<open>n > 2d/N\<close>, and with the inverse alone
  recomputed otherwise.
\<close>

theorem covariance_refresh_guard:
  "(step lib a M n s = Inr s' \<longrightarrow>
      (if real n > real (2 * arg_d a) / real (arg_N a)
       then \<exists>C. mean_mats (take (slice_bound (length (WeightedCov s')) (int n + M + 1))
                             (WeightedCov s')) = Inr C \<and>
                ApprPostCov s' = C \<and>
                linalg_cholesky lib C = Some (CholApprPostCov s') \<and>
                linalg_inv lib C = Some (InvApprPostCov s')
       else ApprPostCov s' = ApprPostCov s \<and>
            CholApprPostCov s' = CholApprPostCov s \<and>
            linalg_inv lib (ApprPostCov s) = Some (InvApprPostCov s'))) \<and>
   (init_state lib a P iters M = Inr s0 \<and> run_upto lib a M s0 k = Inr t \<and>
    (\<forall>m < k. real m \<le> real (2 * arg_d a) / real (arg_N a)) \<longrightarrow>
      ApprPostCov t = arg_InitCov a \<and>
      linalg_cholesky lib (arg_InitCov a) = Some (CholApprPostCov t)) \<and>
   (arg_d a = 2 \<and> arg_N a = 1 \<longrightarrow>
      (real n > real (2 * arg_d a) / real (arg_N a) \<longleftrightarrow> 5 \<le> n)) \<and>
   (real n > real (2 * arg_d a) / real (arg_N a) \<and> 0 < arg_N a \<and>
    linalg_inv lib (ApprPostCov u) = Some Inv0 \<and>
    mean_mats (take (slice_bound (length (WeightedCov u)) (int n + M + 1)) (WeightedCov u))
      = Inr C \<and>
    linalg_cholesky lib C = Some L \<and> linalg_inv lib C = Some Ci \<longrightarrow>
      cov_update lib a M n u
        = Inr (u\<lparr>ApprPostCov := C, CholApprPostCov := L, InvApprPostCov := Ci\<rparr>)) \<and>
   (\<not> real n > real (2 * arg_d a) / real (arg_N a) \<and> 0 < arg_N a \<and>
    linalg_inv lib (ApprPostCov u) = Some Inv0 \<longrightarrow>
      cov_update lib a M n u = Inr (u\<lparr>InvApprPostCov := Inv0\<rparr>))"
proof (intro conjI impI)
  assume "step lib a M n s = Inr s'"
  then show "if real n > real (2 * arg_d a) / real (arg_N a)
       then \<exists>C. mean_mats (take (slice_bound (length (WeightedCov s')) (int n + M + 1))
                             (WeightedCov s')) = Inr C \<and>
                ApprPostCov s' = C \<and>
                linalg_cholesky lib C = Some (CholApprPostCov s') \<and>
                linalg_inv lib C = Some (InvApprPostCov s')
       else ApprPostCov s' = ApprPostCov s \<and>
            CholApprPostCov s' = CholApprPostCov s \<and>
            linalg_inv lib (ApprPostCov s) = Some (InvApprPostCov s')"
    by (rule step_cov)
next
  assume h: "init_state lib a P iters M = Inr s0 \<and> run_upto lib a M s0 k = Inr t \<and>
    (\<forall>m < k. real m \<le> real (2 * arg_d a) / real (arg_N a))"
  then have g: "\<forall>m < k. \<not> real m > real (2 * arg_d a) / real (arg_N a)"
    by (simp add: not_less)
  from h have i: "init_state lib a P iters M = Inr s0" and r: "run_upto lib a M s0 k = Inr t"
    by simp_all
  from run_upto_cov_unchanged [OF r g] init_state_fields(4,5) [OF i]
  show "ApprPostCov t = arg_InitCov a"
    and "linalg_cholesky lib (arg_InitCov a) = Some (CholApprPostCov t)"
    by simp_all
next
  assume "arg_d a = 2 \<and> arg_N a = 1"
  then show "real n > real (2 * arg_d a) / real (arg_N a) \<longleftrightarrow> 5 \<le> n"
    by auto
next
  assume "real n > real (2 * arg_d a) / real (arg_N a) \<and> 0 < arg_N a \<and>
    linalg_inv lib (ApprPostCov u) = Some Inv0 \<and>
    mean_mats (take (slice_bound (length (WeightedCov u)) (int n + M + 1)) (WeightedCov u))
      = Inr C \<and>
    linalg_cholesky lib C = Some L \<and> linalg_inv lib C = Some Ci"
  then show "cov_update lib a M n u
        = Inr (u\<lparr>ApprPostCov := C, CholApprPostCov := L, InvApprPostCov := Ci\<rparr>)"
    by (simp add: cov_update_def)
next
  assume "\<not> real n > real (2 * arg_d a) / real (arg_N a) \<and> 0 < arg_N a \<and>
    linalg_inv lib (ApprPostCov u) = Some Inv0"
  then show "cov_update lib a M n u = Inr (u\<lparr>InvApprPostCov := Inv0\<rparr>)"
    by (simp add: cov_update_def)
qed

theorem covariance_refresh_guard_witness:
  "step lib1 args_r 1 0 state_r0 = Inr state_r1 \<and>
   step lib1 args_r 1 1 state_r1 = Inr state_r2 \<and>
   init_state lib1 args_r [[1]] 2 1 = Inr state_r0 \<and>
   run_upto lib1 args_r 1 state_r0 (Suc 0) = Inr state_r1 \<and>
   BayesianLinReg lib1 args_r = Inr state_r2 \<and>
   \<not> real 0 > real (2 * arg_d args_r) / real (arg_N args_r) \<and>
   real 1 > real (2 * arg_d args_r) / real (arg_N args_r) \<and>
   ApprPostCov state_r1 = ApprPostCov state_r0 \<and>
   CholApprPostCov state_r1 = CholApprPostCov state_r0 \<and>
   ApprPostCov state_r1 = arg_InitCov args_r \<and>
   linalg_cholesky lib1 (arg_InitCov args_r) = Some (CholApprPostCov state_r1) \<and>
   (\<exists>C. mean_mats (take (slice_bound (length (WeightedCov state_r2)) (int 1 + 1 + 1))
                     (WeightedCov state_r2)) = Inr C \<and>
        ApprPostCov state_r2 = C \<and>
        linalg_cholesky lib1 C = Some (CholApprPostCov state_r2) \<and>
        linalg_inv lib1 C = Some (InvApprPostCov state_r2)) \<and>
   ApprPostCov state_r2 = [[1 / 3]] \<and> InvApprPostCov state_r2 = [[3]] \<and>
   cov_update lib1 args_r 1 1 state_r1
     = Inr (state_r1\<lparr>ApprPostCov := [[1 / 3]], CholApprPostCov := [[sqrt (1 / 3)]],
                     InvApprPostCov := [[3]]\<rparr>) \<and>
   cov_update lib1 args_r 1 0 state_r0 = Inr (state_r0\<lparr>InvApprPostCov := [[1]]\<rparr>) \<and>
   \<not> real 4 > real (2 * arg_d (args1\<lparr>arg_d := 2, arg_N := 1\<rparr>))
              / real (arg_N (args1\<lparr>arg_d := 2, arg_N := 1\<rparr>)) \<and>
   real 5 > real (2 * arg_d (args1\<lparr>arg_d := 2, arg_N := 1\<rparr>))
            / real (arg_N (args1\<lparr>arg_d := 2, arg_N := 1\<rparr>))"
proof -
  let ?a2 = "args1\<lparr>arg_d := 2, arg_N := 1\<rparr>"
  have g0: "\<not> real 0 > real (2 * arg_d args_r) / real (arg_N args_r)"
    by (simp add: args_r_def args1_def)
  have g1: "real 1 > real (2 * arg_d args_r) / real (arg_N args_r)"
    by (simp add: args_r_def args1_def)
  have N: "0 < arg_N args_r"
    by (simp add: args_r_def args1_def)
  have all: "\<forall>m < Suc 0. real m \<le> real (2 * arg_d args_r) / real (arg_N args_r)"
    by (simp add: args_r_def args1_def)
  note T0 = covariance_refresh_guard
    [of lib1 args_r 1 0 state_r0 state_r1 "[[1]]" 2 state_r0 "Suc 0" state_r1
        state_r0 "[[1]]"]
  note T1 = covariance_refresh_guard
    [of lib1 args_r 1 1 state_r1 state_r2 "[[1]]" 2 state_r0 "Suc 0" state_r1
        state_r1 "[[1]]" "[[1 / 3]]" "[[sqrt (1 / 3)]]" "[[3]]"]
  from T0 r_step0 g0 have c1:
    "ApprPostCov state_r1 = ApprPostCov state_r0 \<and>
     CholApprPostCov state_r1 = CholApprPostCov state_r0"
    by (auto split: if_splits)
  from T0 r_init r_run_upto1 all have c2:
    "ApprPostCov state_r1 = arg_InitCov args_r \<and>
     linalg_cholesky lib1 (arg_InitCov args_r) = Some (CholApprPostCov state_r1)"
    by blast
  from T1 r_step1 g1 have c3:
    "\<exists>C. mean_mats (take (slice_bound (length (WeightedCov state_r2)) (int 1 + 1 + 1))
                     (WeightedCov state_r2)) = Inr C \<and>
        ApprPostCov state_r2 = C \<and>
        linalg_cholesky lib1 C = Some (CholApprPostCov state_r2) \<and>
        linalg_inv lib1 C = Some (InvApprPostCov state_r2)"
    by (auto split: if_splits)
  have v: "ApprPostCov state_r2 = [[1 / 3]] \<and> InvApprPostCov state_r2 = [[3]]"
    by (simp add: state_r2_def state_r1c_def)
  have l1: "linalg_inv lib1 (ApprPostCov state_r1) = Some [[1]]"
    "linalg_cholesky lib1 [[1 / 3]] = Some [[sqrt (1 / 3)]]"
    "linalg_inv lib1 [[1 / 3]] = Some [[3]]"
    by (simp_all add: lib1_def state_r1_def state_r0_def)
  from T1 [THEN conjunct2, THEN conjunct2, THEN conjunct2, THEN conjunct1]
    g1 N l1 r_mean_mats
  have c4: "cov_update lib1 args_r 1 1 state_r1
     = Inr (state_r1\<lparr>ApprPostCov := [[1 / 3]], CholApprPostCov := [[sqrt (1 / 3)]],
                     InvApprPostCov := [[3]]\<rparr>)"
    by blast
  have l0: "linalg_inv lib1 (ApprPostCov state_r0) = Some [[1]]"
    by (simp add: lib1_def state_r0_def)
  from T0 [THEN conjunct2, THEN conjunct2, THEN conjunct2, THEN conjunct2] g0 N l0
  have c5: "cov_update lib1 args_r 1 0 state_r0 = Inr (state_r0\<lparr>InvApprPostCov := [[1]]\<rparr>)"
    by blast
  have d2: "arg_d ?a2 = 2 \<and> arg_N ?a2 = 1"
    by simp
  from covariance_refresh_guard [of lib1 ?a2 1 4] d2
  have c6: "\<not> real 4 > real (2 * arg_d ?a2) / real (arg_N ?a2)"
    by auto
  from covariance_refresh_guard [of lib1 ?a2 1 5] d2
  have c7: "real 5 > real (2 * arg_d ?a2) / real (arg_N ?a2)"
    by auto
  from r_step0 r_step1 r_init r_run_upto1 r_run g0 g1 c1 c2 c3 v c4 c5 c6 c7 show ?thesis
    by (intro conjI) (rule TrueI | assumption | erule conjunct1 | erule conjunct2)+
qed

subsection \<open>Running mean\<close>

lemma mean_rows_nth:
  assumes "mean_rows A = Inr m" and "j < ncols A"
  shows "m ! j = (\<Sum>i < length A. A ! i ! j) / real (length A)"
proof -
  from assms(1) have m: "m = map (\<lambda>c. sum_list c / real (length A)) (transpose_m A)"
    by (auto simp: mean_rows_def split: if_splits)
  have "sum_list (col A j) = (\<Sum>i < length A. A ! i ! j)"
    by (simp add: col_def sum_list_sum_nth atLeast0LessThan)
  with assms(2) show ?thesis
    by (simp add: m transpose_m_def)
qed

lemma mean_rows_length:
  assumes "mean_rows A = Inr m"
  shows "length m = ncols A"
  using assms by (auto simp: mean_rows_def transpose_m_def split: if_splits)

text \<open>
  C4, as amended. After the iteration with loop index \<open>n\<close> (that is, after \<open>n+1\<close>
  iterations) the running mean \<open>ApprPostMean\<close> is the arithmetic mean of the first
  \<open>n + M + 1\<close> weighted-sum slots, the slot written in that iteration included; the first
  \<open>M\<close> slots hold the initial mean.
\<close>

theorem running_mean_slots:
  assumes "init_state lib a P iters M = Inr s0" and "0 \<le> M"
    and "run_upto lib a M s0 (Suc n) = Inr s"
  shows "n + nat M + 1 \<le> length (WeightedSum s) \<and>
         take (nat M) (WeightedSum s) = replicate (nat M) (arg_InitMean a) \<and>
         mean_rows (take (n + nat M + 1) (WeightedSum s)) = Inr (ApprPostMean s) \<and>
         (\<forall>j < length (ApprPostMean s).
            ApprPostMean s ! j
              = (\<Sum>i < n + nat M + 1. WeightedSum s ! i ! j) / real (n + nat M + 1))"
proof -
  from assms(3) obtain t where t: "run_upto lib a M s0 n = Inr t" and
    st: "step lib a M n t = Inr s"
    by (auto simp: bind_err_Inr_iff)
  from step_mean [OF st] obtain i v where
    i: "index (length (WeightedSum t)) (int n + M) = Inr i" and
    w: "WeightedSum s = (WeightedSum t)[i := v]" and
    m: "mean_rows (take (slice_bound (length (WeightedSum s)) (int n + M + 1))
                        (WeightedSum s)) = Inr (ApprPostMean s)"
    by blast
  from index_nonneg [OF i] assms(2) have lt: "nat (int n + M) < length (WeightedSum t)"
    by simp
  have nM: "nat (int n + M) = n + nat M"
    using assms(2) by (simp add: nat_add_distrib)
  from lt have len: "n + nat M + 1 \<le> length (WeightedSum s)"
    by (simp add: w nM)
  have sb: "slice_bound (length (WeightedSum s)) (int n + M + 1) = n + nat M + 1"
    using len assms(2) by (simp add: slice_bound_def nat_add_distrib)
  have l0: "length (WeightedSum s0) = nat (iters + M)"
    by (rule init_state_fields(7) [OF assms(1)])
  have "take (nat M) (WeightedSum s) = take (nat M) (WeightedSum s0)"
    using run_upto_frame [OF assms(3)] assms(2) by simp
  moreover have "slice_bound (nat (iters + M)) M = nat M"
    using run_upto_frame [OF assms(3)] len l0 assms(2) by (simp add: slice_bound_def)
  ultimately have first: "take (nat M) (WeightedSum s) = replicate (nat M) (arg_InitMean a)"
    using init_state_fields(8) [OF assms(1)] by simp
  let ?A = "take (n + nat M + 1) (WeightedSum s)"
  from m sb have mA: "mean_rows ?A = Inr (ApprPostMean s)" by simp
  have lA: "length ?A = n + nat M + 1" using len by simp
  have "ApprPostMean s ! j = (\<Sum>i < n + nat M + 1. WeightedSum s ! i ! j) / real (n + nat M + 1)"
    if "j < length (ApprPostMean s)" for j
  proof -
    from that mean_rows_length [OF mA] have "j < ncols ?A" by simp
    from mean_rows_nth [OF mA this] show ?thesis
      unfolding lA by simp
  qed
  with len first mA show ?thesis by blast
qed

theorem running_mean_slots_witness:
  "init_state lib1 args1 [[1]] 1 1 = Inr state0 \<and> (0::int) \<le> 1 \<and>
   run_upto lib1 args1 1 state0 (Suc 0) = Inr state1 \<and>
   mean_rows (take (0 + nat 1 + 1) (WeightedSum state1)) = Inr (ApprPostMean state1) \<and>
   take (nat 1) (WeightedSum state1) = replicate (nat 1) (arg_InitMean args1)"
proof -
  have le: "(0::int) \<le> 1" by simp
  note R = running_mean_slots [OF ex_init le ex_run_upto]
  from R have r1: "mean_rows (take (0 + nat 1 + 1) (WeightedSum state1)) = Inr (ApprPostMean state1)"
    by (elim conjE)
  from R have r2: "take (nat 1) (WeightedSum state1) = replicate (nat 1) (arg_InitMean args1)"
    by (elim conjE)
  from ex_init le ex_run_upto r1 r2 show ?thesis
    by (intro conjI)
qed

text \<open>
  C4, as stated, takes the first \<open>n + M\<close> slots in the iteration with index \<open>n\<close>. In the
  small run, after iteration 0 with \<open>M = 1\<close>, the mean of the first slot is \<open>0\<close> while the
  running mean is \<open>1/3\<close>.
\<close>

theorem running_mean_slots_counterexample:
  "init_state lib1 args1 [[1]] 1 1 = Inr state0 \<and>
   run_upto lib1 args1 1 state0 (Suc 0) = Inr state1 \<and>
   BayesianLinReg lib1 args1 = Inr state1 \<and>
   ApprPostMean state1 = [1 / 3] \<and>
   mean_rows (take (0 + nat 1) (WeightedSum state1)) = Inr [0] \<and>
   mean_rows (take (0 + nat 1) (WeightedSum state1)) \<noteq> Inr (ApprPostMean state1)"
proof -
  have "mean_rows (take (0 + nat 1) (WeightedSum state1)) = Inr [0]"
    by (simp add: state1_def mean_rows_def transpose_m_def ncols_def col_def)
  moreover have "ApprPostMean state1 = [1 / 3]"
    by (simp add: state1_def)
  ultimately show ?thesis
    using ex_init ex_run_upto ex_run by simp
qed

subsection \<open>Resampling\<close>

lemma normalise_sum:
  assumes "normalise LogPstates = Inr Pstates" and "\<not> overflows LogPstates"
  shows "length Pstates = length LogPstates \<and> sum_list Pstates = 1"
proof -
  have ne: "LogPstates \<noteq> []"
  proof
    assume "LogPstates = []"
    with assms(1) show False
      by (simp add: normalise_def log_normaliser_def)
  qed
  from normalise_naive [OF ne assms(2)] assms(1) have "Pstates = naive_normalise LogPstates"
    by simp
  with sum_list_naive_normalise [OF ne] show ?thesis
    by (simp add: naive_normalise_def)
qed

lemma length_cumsum_from: "length (cumsum_from acc v) = length v"
  by (induction v arbitrary: acc) auto

lemma last_cumsum_from: "v \<noteq> [] \<Longrightarrow> last (cumsum_from acc v) = acc + sum_list v"
proof (induction v arbitrary: acc)
  case Nil
  then show ?case by simp
next
  case (Cons x v)
  show ?case
  proof (cases "v = []")
    case True
    then show ?thesis by simp
  next
    case False
    then have "cumsum_from (acc + x) v \<noteq> []"
      by (cases v) auto
    with Cons.IH [OF False, of "acc + x"] show ?thesis
      by (simp add: add.assoc)
  qed
qed

lemma bsearch_left_below_last:
  assumes "a \<noteq> []" and "v \<le> last a" and "hi \<le> length a" and "lo \<le> length a - 1"
  shows "bsearch_left a v lo hi \<le> length a - 1"
  using assms
proof (induction a v lo hi rule: bsearch_left.induct)
  case (1 a v lo hi)
  let ?mid = "lo + (hi - lo) div 2"
  show ?case
  proof (cases "lo < hi")
    case False
    then show ?thesis
      using "1.prems" by (simp add: bsearch_left.simps [of a v lo hi])
  next
    case lt: True
    then have mid: "?mid < hi" by linarith
    show ?thesis
    proof (cases "a ! ?mid < v")
      case True
      have "?mid \<noteq> length a - 1"
      proof
        assume "?mid = length a - 1"
        with True "1.prems"(1) have "last a < v"
          by (simp add: last_conv_nth)
        with "1.prems"(2) show False by simp
      qed
      with mid "1.prems"(3) have "?mid + 1 \<le> length a - 1" by linarith
      with "1.IH"(1) [OF lt True "1.prems"(1,2,3)] lt True show ?thesis
        by (simp add: bsearch_left.simps [of a v lo hi])
    next
      case False
      from mid "1.prems"(3) have "?mid \<le> length a" by linarith
      with "1.IH"(2) [OF lt False "1.prems"(1,2) _ "1.prems"(4)] lt False show ?thesis
        by (simp add: bsearch_left.simps [of a v lo hi])
    qed
  qed
qed

lemma searchsorted_cumsum_bound:
  assumes "Pstates \<noteq> []" and "sum_list Pstates = 1" and "u \<le> 1"
  shows "searchsorted (cumsum Pstates) u \<le> length Pstates - 1"
proof -
  have ne: "cumsum Pstates \<noteq> []"
    using assms(1) length_cumsum_from [of 0 Pstates] by (auto simp: cumsum_def)
  have "last (cumsum Pstates) = 1"
    using last_cumsum_from [OF assms(1), of 0] assms(2) by (simp add: cumsum_def)
  with assms(3) have "u \<le> last (cumsum Pstates)" by simp
  from bsearch_left_below_last [OF ne this, of "length (cumsum Pstates)" 0]
  show ?thesis
    by (simp add: searchsorted_def cumsum_def length_cumsum_from)
qed

lemma concat_drop_last_col:
  assumes "\<forall>row \<in> set U. length row = k + 1"
  shows "concat (map (drop k) U) = map (\<lambda>row. row ! k) U"
  using assms
proof (induction U)
  case Nil
  then show ?case by simp
next
  case (Cons row U)
  then have "length row = k + 1" by simp
  then have "drop k row = [row ! k]"
    by (metis Cons_nth_drop_Suc Suc_eq_plus1 drop_all lessI order_refl)
  with Cons show ?case by simp
qed

lemma proposals_hd:
  assumes "proposals lib a s U = Inr P"
  shows "P \<noteq> [] \<and> hd P = xI s \<and> length P = Suc (length U)"
  using assms by (auto simp: proposals_def mat_mul_def Let_def split: if_splits)

lemma resample_selected:
  assumes "resample a Proposals Pstates U s = Inr s'"
  shows "I_sel s' = last (resample_indices a Pstates U) \<and> xI s' = Proposals ! I_sel s' \<and>
         I_sel s' < length Proposals"
proof -
  let ?Is = "resample_indices a Pstates U"
  from assms have ne: "?Is \<noteq> []" and b: "\<forall>i \<in> set ?Is. i < length Proposals"
    and s': "s' = s\<lparr>xVals := xVals s @ [map (\<lambda>i. Proposals ! i) ?Is],
                      AcceptVals := AcceptVals s @ [map (\<lambda>i. 1 - Pstates ! i) ?Is],
                      xI := Proposals ! last ?Is, I_sel := last ?Is\<rparr>"
    by (auto simp: resample_def Let_def not_le split: if_splits)
  from ne b have "last ?Is < length Proposals" by simp
  with s' show ?thesis by simp
qed

text \<open>
  Short of overflow, and rounding apart: when the weights are the normalisation of \<open>N+1\<close>
  log-weights and the block holds \<open>N \<ge> 1\<close> rows of \<open>d+1\<close> entries whose last entry, the
  draw, is at most 1, the binary search against the cumulative weights gives \<open>N\<close> indices,
  each at most \<open>N\<close>, and the resampling does not fail. In every iteration that succeeds
  the proposal at the last index becomes \<open>xI\<close>, and the next iteration's proposals start
  with it.
\<close>

lemma resample_in_range:
  "(normalise LogPstates = Inr Pstates \<and> \<not> overflows LogPstates \<and>
    length LogPstates = Suc N \<and>
    length Proposals = Suc N \<and> length U = N \<and> 0 < N \<and>
    (\<forall>row \<in> set U. length row = arg_d a + 1 \<and> row ! arg_d a \<le> 1) \<longrightarrow>
      length (resample_indices a Pstates U) = N \<and>
      (\<forall>i \<in> set (resample_indices a Pstates U). i \<le> N) \<and>
      (\<exists>s'. resample a Proposals Pstates U s = Inr s' \<and>
            I_sel s' = last (resample_indices a Pstates U) \<and>
            xI s' = Proposals ! I_sel s')) \<and>
   (step lib a M n t = Inr t' \<longrightarrow>
      (\<exists>P. proposals lib a t (stream_block (seed_xs a) (arg_N a) n) = Inr P \<and>
           length P = Suc (length (stream_block (seed_xs a) (arg_N a) n)) \<and>
           I_sel t' < length P \<and> xI t' = P ! I_sel t')) \<and>
   (proposals lib a t' U' = Inr P' \<longrightarrow> P' \<noteq> [] \<and> hd P' = xI t')"
proof (intro conjI impI)
  assume h: "normalise LogPstates = Inr Pstates \<and> \<not> overflows LogPstates \<and>
    length LogPstates = Suc N \<and>
    length Proposals = Suc N \<and> length U = N \<and> 0 < N \<and>
    (\<forall>row \<in> set U. length row = arg_d a + 1 \<and> row ! arg_d a \<le> 1)"
  let ?us = "concat (map (drop (arg_d a)) U)"
  let ?Is = "resample_indices a Pstates U"
  from h normalise_sum [of LogPstates Pstates]
  have lP: "length Pstates = Suc N" and sP: "sum_list Pstates = 1"
    by simp_all
  then have neP: "Pstates \<noteq> []" by auto
  have us: "?us = map (\<lambda>row. row ! arg_d a) U"
    using h by (intro concat_drop_last_col) simp
  have Is: "?Is = map (searchsorted (cumsum Pstates)) ?us"
    by (simp add: resample_indices_def)
  show len: "length ?Is = N"
    using h by (simp add: Is us)
  have u1: "u \<le> 1" if "u \<in> set ?us" for u
    using that h by (auto simp: us)
  show bnd: "\<forall>i \<in> set ?Is. i \<le> N"
  proof
    fix i assume "i \<in> set ?Is"
    then obtain u where "u \<in> set ?us" "i = searchsorted (cumsum Pstates) u"
      unfolding Is by auto
    with searchsorted_cumsum_bound [OF neP sP u1] lP show "i \<le> N" by simp
  qed
  from len h have ne: "?Is \<noteq> []" by auto
  from bnd h lP have "\<not> (\<exists>i \<in> set ?Is. length Proposals \<le> i)"
    "\<not> (\<exists>i \<in> set ?Is. length Pstates \<le> i)"
    by auto
  with ne show "\<exists>s'. resample a Proposals Pstates U s = Inr s' \<and>
            I_sel s' = last ?Is \<and> xI s' = Proposals ! I_sel s'"
    by (simp add: resample_def Let_def)
next
  assume "step lib a M n t = Inr t'"
  then obtain Proposals Pstates s1 s2 where
    p: "proposals lib a t (stream_block (seed_xs a) (arg_N a) n) = Inr Proposals" and
    r: "resample a Proposals Pstates (stream_block (seed_xs a) (arg_N a) n) s2 = Inr t'"
    by (rule step_stages)
  from resample_selected [OF r] p proposals_hd [OF p]
  show "\<exists>P. proposals lib a t (stream_block (seed_xs a) (arg_N a) n) = Inr P \<and>
           length P = Suc (length (stream_block (seed_xs a) (arg_N a) n)) \<and>
           I_sel t' < length P \<and> xI t' = P ! I_sel t'"
    by simp
next
  assume "proposals lib a t' U' = Inr P'"
  from proposals_hd [OF this] show "P' \<noteq> []" and "hd P' = xI t'"
    by simp_all
qed


text \<open>
  C7. Every resampling index is to lie in \<open>[0, N]\<close>, so that indexing the \<open>N+1\<close>
  proposals is in bounds. In the run started at \<open>x0 = 34\<close>, with \<open>N = 2\<close> and the draws
  \<open>1/4\<close> and \<open>3/4\<close>, the weights of the first iteration are all zero and so are their
  cumulative sums; the binary search returns \<open>3 = N + 1\<close> for both draws, indexing the
  three proposals raises IndexError, and the constructor fails in its first iteration.
\<close>

theorem resample_index_out_of_range:
  "stream_block (seed_xs args_far) (arg_N args_far) 0 = [[1 / 2, 1 / 4], [1 / 2, 3 / 4]] \<and>
   arg_N args_far = 2 \<and>
   normalise [- 1667, - 579, - 579] = Inr [0, 0, 0] \<and>
   cumsum [0, 0, 0] = [0, 0, 0] \<and>
   resample_indices args_far [0, 0, 0] [[1 / 2, 1 / 4], [1 / 2, 3 / 4]] = [3, 3] \<and>
   resample args_far [[34], [0], [0]] [0, 0, 0] [[1 / 2, 1 / 4], [1 / 2, 3 / 4]] state_far_m
     = Inl IndexError \<and>
   step lib1 args_far 1 0 state_far = Inl IndexError \<and>
   BayesianLinReg lib1 args_far = Inl IndexError"
proof -
  have "arg_N args_far = 2"
    by (simp add: args_far_def args1_def)
  moreover have "cumsum [0, 0, 0] = [0, 0, 0]"
    by (simp add: cumsum_def)
  ultimately show ?thesis
    using far_block normalise_far far_indices far_resample far_step far_run by simp
qed

subsection \<open>Prior precision\<close>

lemma wf_matD:
  assumes "wf_mat m n A"
  shows "length A = m" "i < m \<Longrightarrow> length (A ! i) = n"
  using assms by (auto simp: wf_mat_def)

lemma mat_ext:
  assumes "wf_mat m n A" and "wf_mat m n B"
    and "\<And>i j. i < m \<Longrightarrow> j < n \<Longrightarrow> A ! i ! j = B ! i ! j"
  shows "A = B"
proof (rule nth_equalityI)
  show "length A = length B"
    using assms(1,2) by (simp add: wf_matD)
next
  fix i assume "i < length A"
  then have i: "i < m" using assms(1) by (simp add: wf_matD)
  show "A ! i = B ! i"
  proof (rule nth_equalityI)
    show "length (A ! i) = length (B ! i)"
      using i assms(1,2) by (simp add: wf_matD)
  next
    fix j assume "j < length (A ! i)"
    with i assms(1) have "j < n" by (simp add: wf_matD)
    with i show "A ! i ! j = B ! i ! j" by (rule assms(3))
  qed
qed

lemma ncols_wf:
  assumes "wf_mat m n A" and "0 < m"
  shows "ncols A = n"
  using assms by (cases A) (auto simp: wf_mat_def ncols_def)

lemma dot_sum:
  assumes "length u = n" and "length v = n"
  shows "dot u v = (\<Sum>k < n. u ! k * v ! k)"
proof -
  have "dot u v = (\<Sum>k = 0..<length (zip u v). (map2 (*) u v) ! k)"
    by (simp add: dot_def sum_list_sum_nth)
  also have "\<dots> = (\<Sum>k < n. u ! k * v ! k)"
    using assms by (simp add: atLeast0LessThan)
  finally show ?thesis .
qed

lemma mat_mul_nth:
  assumes "wf_mat m n A" and "wf_mat n p B" and "0 < n" and "i < m" and "j < p"
  shows "mat_mul A B ! i ! j = (\<Sum>k < n. A ! i ! k * B ! k ! j)"
proof -
  have nc: "ncols B = p" by (rule ncols_wf [OF assms(2,3)])
  have "mat_mul A B ! i ! j = dot (A ! i) (col B j)"
    using assms by (simp add: mat_mul_def nc wf_matD)
  also have "\<dots> = (\<Sum>k < n. A ! i ! k * col B j ! k)"
    using assms by (intro dot_sum) (simp_all add: wf_matD col_def)
  also have "\<dots> = (\<Sum>k < n. A ! i ! k * B ! k ! j)"
    using assms(2) by (intro sum.cong) (simp_all add: col_def wf_matD)
  finally show ?thesis .
qed

lemma wf_mat_mul:
  assumes "wf_mat m n A" and "wf_mat n p B" and "0 < n"
  shows "wf_mat m p (mat_mul A B)"
  using assms(1) ncols_wf [OF assms(2,3)] by (simp add: wf_mat_def mat_mul_def)

lemma wf_mat_mul_sq:
  assumes "wf_mat d d A" and "wf_mat d d B" and "0 < d"
  shows "wf_mat d d (mat_mul A B)"
  using assms by (rule wf_mat_mul)

lemma mat_mul_assoc:
  assumes "wf_mat d d A" and "wf_mat d d B" and "wf_mat d d C" and "0 < d"
  shows "mat_mul (mat_mul A B) C = mat_mul A (mat_mul B C)"
proof (rule mat_ext [of d d])
  show "wf_mat d d (mat_mul (mat_mul A B) C)"
    by (simp add: wf_mat_mul_sq assms)
  show "wf_mat d d (mat_mul A (mat_mul B C))"
    by (simp add: wf_mat_mul_sq assms)
next
  fix i j assume i: "i < d" and j: "j < d"
  have AB: "wf_mat d d (mat_mul A B)" and BC: "wf_mat d d (mat_mul B C)"
    by (simp_all add: wf_mat_mul_sq assms)
  have "mat_mul (mat_mul A B) C ! i ! j = (\<Sum>l < d. mat_mul A B ! i ! l * C ! l ! j)"
    by (rule mat_mul_nth [OF AB assms(3,4) i j])
  also have "\<dots> = (\<Sum>l < d. (\<Sum>k < d. A ! i ! k * B ! k ! l) * C ! l ! j)"
    using i by (intro sum.cong) (simp_all add: mat_mul_nth [OF assms(1,2,4)])
  also have "\<dots> = (\<Sum>l < d. \<Sum>k < d. A ! i ! k * (B ! k ! l * C ! l ! j))"
    by (simp add: sum_distrib_right mult.assoc)
  also have "\<dots> = (\<Sum>k < d. \<Sum>l < d. A ! i ! k * (B ! k ! l * C ! l ! j))"
    by (rule sum.swap)
  also have "\<dots> = (\<Sum>k < d. A ! i ! k * (\<Sum>l < d. B ! k ! l * C ! l ! j))"
    by (simp add: sum_distrib_left)
  also have "\<dots> = (\<Sum>k < d. A ! i ! k * mat_mul B C ! k ! j)"
    using j by (intro sum.cong) (simp_all add: mat_mul_nth [OF assms(2,3,4)])
  also have "\<dots> = mat_mul A (mat_mul B C) ! i ! j"
    by (rule mat_mul_nth [OF assms(1) BC assms(4) i j, symmetric])
  finally show "mat_mul (mat_mul A B) C ! i ! j = mat_mul A (mat_mul B C) ! i ! j" .
qed

lemma wf_identity: "wf_mat d d (identity d)"
  by (auto simp: wf_mat_def identity_def)

lemma identity_nth: "i < d \<Longrightarrow> j < d \<Longrightarrow> identity d ! i ! j = (if i = j then 1 else 0)"
  by (simp add: identity_def)

lemma mat_mul_identity_right:
  assumes "wf_mat d d A" and "0 < d"
  shows "mat_mul A (identity d) = A"
proof (rule mat_ext [of d d])
  show "wf_mat d d (mat_mul A (identity d))"
    by (simp add: wf_mat_mul_sq assms wf_identity)
  show "wf_mat d d A" by fact
next
  fix i j assume i: "i < d" and j: "j < d"
  have "mat_mul A (identity d) ! i ! j = (\<Sum>k < d. A ! i ! k * identity d ! k ! j)"
    by (rule mat_mul_nth [OF assms(1) wf_identity assms(2) i j])
  also have "\<dots> = (\<Sum>k < d. if k = j then A ! i ! j else 0)"
    using j by (intro sum.cong) (auto simp: identity_nth)
  also have "\<dots> = A ! i ! j"
    using j by simp
  finally show "mat_mul A (identity d) ! i ! j = A ! i ! j" .
qed

lemma mat_mul_identity_left:
  assumes "wf_mat d d A" and "0 < d"
  shows "mat_mul (identity d) A = A"
proof (rule mat_ext [of d d])
  show "wf_mat d d (mat_mul (identity d) A)"
    by (simp add: wf_mat_mul_sq assms wf_identity)
  show "wf_mat d d A" by fact
next
  fix i j assume i: "i < d" and j: "j < d"
  have "mat_mul (identity d) A ! i ! j = (\<Sum>k < d. identity d ! i ! k * A ! k ! j)"
    by (rule mat_mul_nth [OF wf_identity assms(1,2) i j])
  also have "\<dots> = (\<Sum>k < d. if k = i then A ! i ! j else 0)"
    using i by (intro sum.cong) (auto simp: identity_nth)
  also have "\<dots> = A ! i ! j"
    using i by simp
  finally show "mat_mul (identity d) A ! i ! j = A ! i ! j" .
qed

lemma wf_scale: "wf_mat m n A \<Longrightarrow> wf_mat m n (scale c A)"
  by (auto simp: wf_mat_def scale_def)

lemma scale_nth:
  assumes "wf_mat m n A" and "i < m" and "j < n"
  shows "scale c A ! i ! j = c * A ! i ! j"
  using assms by (simp add: scale_def wf_matD)

lemma mat_mul_scale_right:
  assumes "wf_mat d d A" and "wf_mat d d B" and "0 < d"
  shows "mat_mul A (scale c B) = scale c (mat_mul A B)"
proof (rule mat_ext [of d d])
  show "wf_mat d d (mat_mul A (scale c B))"
    by (simp add: wf_mat_mul_sq wf_scale assms)
  show "wf_mat d d (scale c (mat_mul A B))"
    by (simp add: wf_mat_mul_sq wf_scale assms)
next
  fix i j assume i: "i < d" and j: "j < d"
  have AB: "wf_mat d d (mat_mul A B)" by (simp add: wf_mat_mul_sq assms)
  have "mat_mul A (scale c B) ! i ! j = (\<Sum>k < d. A ! i ! k * scale c B ! k ! j)"
    by (rule mat_mul_nth [OF assms(1) wf_scale [OF assms(2)] assms(3) i j])
  also have "\<dots> = (\<Sum>k < d. c * (A ! i ! k * B ! k ! j))"
    using j by (intro sum.cong) (simp_all add: scale_nth [OF assms(2)])
  also have "\<dots> = c * (\<Sum>k < d. A ! i ! k * B ! k ! j)"
    by (simp add: sum_distrib_left)
  also have "\<dots> = scale c (mat_mul A B) ! i ! j"
    by (simp add: scale_nth [OF AB i j] mat_mul_nth [OF assms(1,2,3) i j])
  finally show "mat_mul A (scale c B) ! i ! j = scale c (mat_mul A B) ! i ! j" .
qed

lemma mat_mul_scale_left:
  assumes "wf_mat d d A" and "wf_mat d d B" and "0 < d"
  shows "mat_mul (scale c A) B = scale c (mat_mul A B)"
proof (rule mat_ext [of d d])
  show "wf_mat d d (mat_mul (scale c A) B)"
    by (simp add: wf_mat_mul_sq wf_scale assms)
  show "wf_mat d d (scale c (mat_mul A B))"
    by (simp add: wf_mat_mul_sq wf_scale assms)
next
  fix i j assume i: "i < d" and j: "j < d"
  have AB: "wf_mat d d (mat_mul A B)" by (simp add: wf_mat_mul_sq assms)
  have "mat_mul (scale c A) B ! i ! j = (\<Sum>k < d. scale c A ! i ! k * B ! k ! j)"
    by (rule mat_mul_nth [OF wf_scale [OF assms(1)] assms(2,3) i j])
  also have "\<dots> = (\<Sum>k < d. c * (A ! i ! k * B ! k ! j))"
    using i by (intro sum.cong) (simp_all add: scale_nth [OF assms(1)])
  also have "\<dots> = c * (\<Sum>k < d. A ! i ! k * B ! k ! j)"
    by (simp add: sum_distrib_left)
  also have "\<dots> = scale c (mat_mul A B) ! i ! j"
    by (simp add: scale_nth [OF AB i j] mat_mul_nth [OF assms(1,2,3) i j])
  finally show "mat_mul (scale c A) B ! i ! j = scale c (mat_mul A B) ! i ! j" .
qed

lemma scale_scale: "scale c (scale e A) = scale (c * e) A"
  by (simp add: scale_def mult.assoc)

lemma scale_one: "scale 1 A = A"
  by (simp add: scale_def)

lemma inverse_scale_unique:
  assumes "inverse_of A B" and "inverse_of (scale c B) C" and "c \<noteq> 0"
  shows "C = scale (1 / c) A"
proof -
  define d where "d = length A"
  from assms(1) have A: "wf_mat d d A" and B: "wf_mat d d B" and BA: "mat_mul B A = identity d"
    by (simp_all add: inverse_of_def d_def)
  have lB: "length (scale c B) = d"
    using B by (simp add: scale_def wf_matD)
  from assms(2) have C: "wf_mat d d C" and CG: "mat_mul C (scale c B) = identity d"
    by (simp_all add: inverse_of_def lB)
  show ?thesis
  proof (cases "d = 0")
    case True
    with A C show ?thesis
      by (simp add: wf_mat_def scale_def)
  next
    case False
    then have d: "0 < d" by simp
    have CB: "wf_mat d d (mat_mul C B)" by (rule wf_mat_mul_sq [OF C B d])
    have "scale c (mat_mul C B) = identity d"
      using CG by (simp add: mat_mul_scale_right [OF C B d])
    then have "scale (1 / c) (scale c (mat_mul C B)) = scale (1 / c) (identity d)"
      by simp
    then have e: "mat_mul C B = scale (1 / c) (identity d)"
      using assms(3) by (simp add: scale_scale scale_one)
    have "C = mat_mul C (identity d)"
      by (simp add: mat_mul_identity_right [OF C d])
    also have "\<dots> = mat_mul (mat_mul C B) A"
      by (simp add: BA [symmetric] mat_mul_assoc [OF C B A d])
    also have "\<dots> = scale (1 / c) (mat_mul (identity d) A)"
      by (simp add: e mat_mul_scale_left [OF wf_identity A d])
    also have "\<dots> = scale (1 / c) A"
      by (simp add: mat_mul_identity_left [OF A d])
    finally show ?thesis .
  qed
qed


lemma g_prior_precision_scale:
  assumes "inv_sound lib" and "g_prior_precision lib alpha X n = Inr P"
  shows "P = scale (alpha / real n) (mat_mul (transpose_m X) X) \<and>
         (\<exists>B. inverse_of (mat_mul (transpose_m X) X) B \<and>
              inverse_of (scale (1 / alpha * real n) B) P)"
proof -
  let ?XtX = "mat_mul (transpose_m X) X"
  from assms(2) have n: "n \<noteq> 0" and al: "alpha \<noteq> 0"
    by (auto simp: g_prior_precision_def Let_def split: if_splits)
  with assms(2) obtain B where B: "linalg_inv lib ?XtX = Some B"
    and P: "linalg_inv lib (scale (1 / alpha / (1 / real n)) B) = Some P"
    by (auto simp: g_prior_precision_def Let_def split: option.splits)
  have c: "1 / alpha / (1 / real n) = 1 / alpha * real n"
    by simp
  from assms(1) B have iB: "inverse_of ?XtX B"
    by (simp add: inv_sound_def)
  from assms(1) P have iP: "inverse_of (scale (1 / alpha * real n) B) P"
    unfolding c by (simp add: inv_sound_def)
  have "1 / alpha * real n \<noteq> 0"
    using n al by simp
  from inverse_scale_unique [OF iB iP this] have "P = scale (alpha / real n) ?XtX"
    by simp
  with iB iP show ?thesis by blast
qed

text \<open>
  C5, as amended. With an inverse that keeps its promise, the prior precision of a
  constructed engine is \<open>(alpha / n_obs) \<cdot> X\<^sup>TX\<close>: the inverse of the g-prior covariance
  \<open>(1/alpha) \<cdot> n_obs \<cdot> (X\<^sup>TX)\<^sup>-\<^sup>1\<close>. It is computed before the loop and is the same in
  every state of the run.
\<close>

theorem g_prior_precision_value:
  assumes "inv_sound lib" and "BayesianLinReg lib a = Inr s"
  shows "InvG_prior s = scale (arg_alpha a / real (data_NumOfSamples a))
                              (mat_mul (transpose_m (data_X a)) (data_X a)) \<and>
         (\<exists>B. inverse_of (mat_mul (transpose_m (data_X a)) (data_X a)) B \<and>
              inverse_of (scale (1 / arg_alpha a * real (data_NumOfSamples a)) B)
                         (InvG_prior s)) \<and>
         (g_prior_precision lib (arg_alpha a) (data_X a) (data_NumOfSamples a) = Inr P \<and>
          init_state lib a P iters M = Inr s0 \<and> run_upto lib a M s0 k = Inr t \<longrightarrow>
            InvG_prior t = InvG_prior s)"
proof -
  from assms(2) obtain P' iters' M' s0' where
    g: "g_prior_precision lib (arg_alpha a) (data_X a) (data_NumOfSamples a) = Inr P'" and
    i: "init_state lib a P' iters' M' = Inr s0'" and
    r: "run_upto lib a M' s0' (nat iters') = Inr s"
    by (rule BayesianLinReg_stages)
  have e: "InvG_prior s = P'"
    using run_upto_frame [OF r] init_state_fields(3) [OF i] by simp
  have third: "InvG_prior t = InvG_prior s"
    if h: "g_prior_precision lib (arg_alpha a) (data_X a) (data_NumOfSamples a) = Inr P \<and>
          init_state lib a P iters M = Inr s0 \<and> run_upto lib a M s0 k = Inr t"
  proof -
    from h g have "P = P'" by simp
    moreover from h have "InvG_prior t = P"
      using run_upto_frame [of lib a M s0 k t] init_state_fields(3) [of lib a P iters M s0]
      by simp
    ultimately show ?thesis by (simp add: e)
  qed
  note S = g_prior_precision_scale [OF assms(1) g, folded e]
  from S have s1: "InvG_prior s = scale (arg_alpha a / real (data_NumOfSamples a))
                              (mat_mul (transpose_m (data_X a)) (data_X a))"
    by (rule conjunct1)
  from S have s2: "\<exists>B. inverse_of (mat_mul (transpose_m (data_X a)) (data_X a)) B \<and>
              inverse_of (scale (1 / arg_alpha a * real (data_NumOfSamples a)) B)
                         (InvG_prior s)"
    by (rule conjunct2)
  from s1 s2 third show ?thesis
    by (intro conjI impI)
qed

lemma inv_sound_lib1: "inv_sound lib1"
  unfolding inv_sound_def
proof (intro allI impI)
  fix A B assume "linalg_inv lib1 A = Some B"
  then have "inv1 A = Some B" by (simp add: lib1_def)
  then obtain x where "A = [[x]]" "x \<noteq> 0" "B = [[1 / x]]"
    by (auto elim!: inv1.elims split: if_splits)
  then show "inverse_of A B"
    by (simp add: inverse_of_def wf_mat_def mat_defs identity_def)
qed

theorem g_prior_precision_value_witness:
  "inv_sound lib1 \<and> BayesianLinReg lib1 args1 = Inr state1 \<and>
   InvG_prior state1 = scale (arg_alpha args1 / real (data_NumOfSamples args1))
                             (mat_mul (transpose_m (data_X args1)) (data_X args1)) \<and>
   InvG_prior state1 = [[1]]"
proof -
  note T = g_prior_precision_value [OF inv_sound_lib1 ex_run]
  from T have "InvG_prior state1 = scale (arg_alpha args1 / real (data_NumOfSamples args1))
                             (mat_mul (transpose_m (data_X args1)) (data_X args1))"
    by (rule conjunct1)
  moreover have "InvG_prior state1 = [[1]]"
    by (simp add: state1_def)
  ultimately show ?thesis
    using inv_sound_lib1 ex_run by (intro conjI)
qed

text \<open>
  C5, as stated, has the factor \<open>alpha \<cdot> n_obs\<close>. In the small run, with \<open>alpha = 1\<close>, two
  observations and \<open>X\<^sup>TX = 2\<close>, the precision is \<open>1\<close>, the inverse of the covariance
  \<open>(1/1) \<cdot> 2 \<cdot> (1/2) = 1\<close>, not \<open>(1 \<cdot> 2) \<cdot> 2 = 4\<close>.
\<close>

theorem g_prior_precision_counterexample:
  "inv_sound lib1 \<and> BayesianLinReg lib1 args1 = Inr state1 \<and>
   InvG_prior state1 = [[1]] \<and>
   scale (arg_alpha args1 * real (data_NumOfSamples args1))
         (mat_mul (transpose_m (data_X args1)) (data_X args1)) = [[4]] \<and>
   InvG_prior state1 \<noteq> scale (arg_alpha args1 * real (data_NumOfSamples args1))
                              (mat_mul (transpose_m (data_X args1)) (data_X args1))"
proof -
  have a: "InvG_prior state1 = [[1]]"
    by (simp add: state1_def)
  have b: "scale (arg_alpha args1 * real (data_NumOfSamples args1))
         (mat_mul (transpose_m (data_X args1)) (data_X args1)) = [[4]]"
    by (simp add: args1_def mat_defs)
  from inv_sound_lib1 ex_run a b show ?thesis
    by simp
qed

end
